theory Spec2Isabelle
  imports Main
begin

section \<open>Label reconciliation of lamindb: \<open>lamindb/validation/_register.py\<close>\<close>

text \<open>
  The module reconciles raw categorical values against a registry of records. Its functions
  \<open>register_labels\<close>, \<open>register_labels_from_using_instance\<close>,
  \<open>register_ulabels_with_parent\<close> and \<open>log_registered_labels\<close> are embedded below, statement
  by statement. Everything they call outside the module (the registry's \<open>inspect\<close>,
  \<open>filter\<close>, \<open>from_values\<close>, \<open>save\<close>, the record constructor, \<open>_registry_using\<close>,
  \<open>check_if_registry_needs_organism\<close>) is a collaborator: a field of the record \<open>env\<close>,
  which a call receives as its first argument.
\<close>

subsection \<open>Data\<close>

type_synonym val = string

text \<open>The registry model \<open>field.field.model\<close>. The code compares it with \<open>ln.Feature\<close> and
  \<open>ln.ULabel\<close> and reads its \<open>__name__\<close>.\<close>

datatype registry = Feature | ULabel | Other string

fun registry_name :: "registry \<Rightarrow> string" where
  "registry_name Feature = ''Feature''"
| "registry_name ULabel = ''ULabel''"
| "registry_name (Other n) = n"

text \<open>A \<open>FieldAttr\<close>: \<open>field.field.model\<close> and \<open>field.field.name\<close>.\<close>

record field_attr =
  model :: registry
  fname :: string

text \<open>A Python \<open>dict\<close> with string keys keeps its keys in insertion order; assigning to a key
  that is there replaces the value in place, assigning to a new key appends it.\<close>

type_synonym 'v dict = "(string \<times> 'v) list"

primrec dict_set :: "string \<Rightarrow> 'v \<Rightarrow> 'v dict \<Rightarrow> 'v dict" where
  "dict_set k v [] = [(k, v)]"
| "dict_set k v (p # ps) = (if fst p = k then (k, v) # ps else p # dict_set k v ps)"

text \<open>\<open>labels_registered[key]\<close>. Every key that \<open>register_labels\<close> reads has been assigned
  before (lemma \<open>dict_get_set\<close> and the literal of line 108), so the \<open>KeyError\<close> of a missing
  key cannot arise there; the lookup of a missing key is the empty list.\<close>

definition dict_get :: "(val list) dict \<Rightarrow> string \<Rightarrow> val list" where
  "dict_get d k = (case map_of d k of Some v \<Rightarrow> v | None \<Rightarrow> [])"

type_synonym kwargs = "string dict"

text \<open>The result of \<open>registry.inspect\<close>.\<close>

record inspect_result =
  validated :: "val list"
  non_validated :: "val list"

text \<open>Exceptions that reach the caller.\<close>

datatype error =
    AssertionError
  | MissingContext
  | UnknownInstance string
  | MultipleResultsFound
  | PersistenceError

text \<open>One entry per call of a collaborator, named after the place of the call in the source.\<close>

datatype ('r, 'df) event =
    NeedsOrganism registry "string option"
  | InspectCurrent "val list"
  | RegistryUsing registry string
  | InspectUsing string "val list"
  | FilterUsing string "val list"
  | SaveFromUsing 'r
  | FromValues "val list"
  | SavePublic "'r list"
  | FeatureFromDf 'df
  | NewPlaceholder kwargs
  | SavePlaceholders "'r list"
  | ParentFromValues "val list"
  | FilterParent string
  | NewParent kwargs
  | SaveParent 'r
  | ChildrenAdd 'r "'r list"

text \<open>What \<open>log_registered_labels\<close> hands to the logger: \<open>logger.warning\<close> for values that are
  not registered, \<open>logger.success\<close> otherwise. The fields are the parts the message is
  formatted from: for a warning the labels type, the model field, the feature name and the
  labels; for a success the labels type, the key prefix, the model field and the labels.\<close>

datatype log_entry =
    LogWarning string string string "val list"
  | LogSuccess string string string "val list"

text \<open>The state a call runs in: the process-wide \<open>ln.settings.verbosity\<close>, the registries
  behind the collaborators (\<open>world\<close>), the collaborator calls made so far and the messages
  logged so far.\<close>

record ('r, 'df, 'w) proc_state =
  verbosity :: string
  world :: 'w
  trace :: "('r, 'df) event list"
  logged :: "log_entry list"

subsection \<open>Collaborators\<close>

text \<open>
  \<^item> \<open>has_public registry\<close>: \<open>hasattr(registry, "public")\<close>;
  \<^item> \<open>check_if_registry_needs_organism registry organism\<close>;
  \<^item> \<open>registry_inspect instance values field kwargs\<close>: \<open>registry.inspect(values, field=field,
    mute=True, **kwargs)\<close> on the current instance (\<open>None\<close>) or on the registry of a using
    instance (\<open>Some using\<close>);
  \<^item> \<open>registry_using registry using\<close>: \<open>_registry_using(registry, using)\<close>;
  \<^item> \<open>registry_filter_in using field values\<close>:
    \<open>registry_using.filter(**{f"{field.field.name}__in": values}).all()\<close>;
  \<^item> \<open>record_save r\<close>: \<open>r.save()\<close>;
  \<^item> \<open>registry_from_values values field kwargs\<close>: \<open>registry.from_values(values, field=field,
    **kwargs)\<close>;
  \<^item> \<open>ln_save records\<close>: \<open>ln.save(records)\<close>;
  \<^item> \<open>feature_from_df df\<close>: \<open>ln.Feature.from_df(df)\<close>; \<open>df_columns df\<close>: \<open>df.columns\<close>;
  \<^item> \<open>registry_new registry kwargs\<close>: the constructor \<open>registry(**kwargs)\<close>;
  \<^item> \<open>registry_filter_one_or_none registry name\<close>: \<open>registry.filter(name=name).one_or_none()\<close>;
  \<^item> \<open>children_add parent records\<close>: \<open>parent.children.add(*records)\<close>;
  \<^item> \<open>getattr r name\<close>: \<open>getattr(r, name)\<close>.
  A collaborator that touches a registry takes the world and returns its result, or the
  exception it raises, with the new world.
\<close>

record ('r, 'df, 'w) env =
  has_public :: "registry \<Rightarrow> bool"
  check_if_registry_needs_organism :: "registry \<Rightarrow> string option \<Rightarrow> 'w \<Rightarrow> (error + bool) \<times> 'w"
  registry_inspect :: "string option \<Rightarrow> val list \<Rightarrow> field_attr \<Rightarrow> kwargs \<Rightarrow> 'w \<Rightarrow> (error + inspect_result) \<times> 'w"
  registry_using :: "registry \<Rightarrow> string \<Rightarrow> 'w \<Rightarrow> (error + unit) \<times> 'w"
  registry_filter_in :: "string \<Rightarrow> field_attr \<Rightarrow> val list \<Rightarrow> 'w \<Rightarrow> (error + 'r list) \<times> 'w"
  record_save :: "'r \<Rightarrow> 'w \<Rightarrow> (error + unit) \<times> 'w"
  registry_from_values :: "val list \<Rightarrow> field_attr \<Rightarrow> kwargs \<Rightarrow> 'w \<Rightarrow> (error + 'r list) \<times> 'w"
  ln_save :: "'r list \<Rightarrow> 'w \<Rightarrow> (error + unit) \<times> 'w"
  feature_from_df :: "'df \<Rightarrow> 'w \<Rightarrow> (error + 'r list) \<times> 'w"
  df_columns :: "'df \<Rightarrow> val list"
  registry_new :: "registry \<Rightarrow> kwargs \<Rightarrow> 'w \<Rightarrow> (error + 'r) \<times> 'w"
  registry_filter_one_or_none :: "registry \<Rightarrow> string \<Rightarrow> 'w \<Rightarrow> (error + 'r option) \<times> 'w"
  children_add :: "'r \<Rightarrow> 'r list \<Rightarrow> 'w \<Rightarrow> (error + unit) \<times> 'w"
  getattr :: "'r \<Rightarrow> string \<Rightarrow> val"

subsection \<open>Sequencing with exceptions\<close>

text \<open>A statement takes the state and returns a value or the raised exception, with the
  state at that moment. \<open>bindE\<close> runs the rest only after a value.\<close>

type_synonym ('a, 's) stmt = "'s \<Rightarrow> (error + 'a) \<times> 's"

definition returnE :: "'a \<Rightarrow> ('a, 's) stmt" where
  "returnE x s = (Inr x, s)"

definition bindE :: "('a, 's) stmt \<Rightarrow> ('a \<Rightarrow> ('b, 's) stmt) \<Rightarrow> ('b, 's) stmt" where
  "bindE m f s = (case m s of (Inl e, s') \<Rightarrow> (Inl e, s') | (Inr a, s') \<Rightarrow> f a s')"

text \<open>\<open>try: body finally: fin\<close>: \<open>fin\<close> runs on the state the body ends in, whether the body
  returned or raised, and the body's outcome stands.\<close>

definition try_finally :: "('a, 's) stmt \<Rightarrow> ('s \<Rightarrow> 's) \<Rightarrow> ('a, 's) stmt" where
  "try_finally body fin s = (case body s of (r, s') \<Rightarrow> (r, fin s'))"

text \<open>A call of a collaborator: the call is recorded, the collaborator runs on the world.\<close>

definition call ::
  "('r, 'df) event \<Rightarrow> ('w \<Rightarrow> (error + 'a) \<times> 'w) \<Rightarrow> ('a, ('r, 'df, 'w) proc_state) stmt" where
  "call ev f s = (case f (world s) of (r, w') \<Rightarrow> (r, s\<lparr>world := w', trace := trace s @ [ev]\<rparr>))"

definition set_verbosity :: "string \<Rightarrow> (unit, ('r, 'df, 'w) proc_state) stmt" where
  "set_verbosity v s = (Inr (), s\<lparr>verbosity := v\<rparr>)"

subsection \<open>\<open>register_labels_from_using_instance\<close> (lines 212 to 246)\<close>

text \<open>The loop of lines 242 to 244: each record found in the using instance is saved and its
  field value appended to \<open>labels_registered\<close>.\<close>

fun save_labels_using ::
  "('r, 'df, 'w) env \<Rightarrow> field_attr \<Rightarrow> 'r list \<Rightarrow> val list \<Rightarrow> (val list, ('r, 'df, 'w) proc_state) stmt" where
  "save_labels_using env field [] labels_registered s = (Inr labels_registered, s)"
| "save_labels_using env field (label_using # rest) labels_registered s =
     (case call (SaveFromUsing label_using) (record_save env label_using) s of
        (Inl e, s') \<Rightarrow> (Inl e, s')
      | (Inr _, s') \<Rightarrow>
          save_labels_using env field rest
            (labels_registered @ [getattr env label_using (fname field)]) s')"

definition register_labels_from_using_instance ::
  "('r, 'df, 'w) env \<Rightarrow> val list \<Rightarrow> field_attr \<Rightarrow> string option \<Rightarrow> kwargs option \<Rightarrow>
     (val list \<times> val list, ('r, 'df, 'w) proc_state) stmt" where
  "register_labels_from_using_instance env values field using kwargs =
     (let kwargs = (case kwargs of None \<Rightarrow> [] | Some k \<Rightarrow> k);
          labels_registered = [];
          not_registered = values
      in if using \<noteq> None \<and> using \<noteq> Some ''default'' then
           (let registry = model field; u = the using in
            bindE (call (RegistryUsing registry u) (registry_using env registry u)) (\<lambda>_.
            bindE (call (InspectUsing u values) (registry_inspect env (Some u) values field kwargs))
              (\<lambda>inspect_result_using.
            bindE (call (FilterUsing u (validated inspect_result_using))
                     (registry_filter_in env u field (validated inspect_result_using)))
              (\<lambda>labels_using.
            bindE (save_labels_using env field labels_using labels_registered)
              (\<lambda>labels_registered.
            returnE (labels_registered, non_validated inspect_result_using))))))
         else returnE (labels_registered, not_registered))"

subsection \<open>\<open>register_ulabels_with_parent\<close> (lines 197 to 209)\<close>

definition register_ulabels_with_parent ::
  "('r, 'df, 'w) env \<Rightarrow> val list \<Rightarrow> field_attr \<Rightarrow> string \<Rightarrow> (unit, ('r, 'df, 'w) proc_state) stmt" where
  "register_ulabels_with_parent env values field feature_name =
     (let registry = model field in
      if registry \<noteq> ULabel then (\<lambda>s. (Inl AssertionError, s))
      else
        bindE (call (ParentFromValues values) (registry_from_values env values field []))
          (\<lambda>all_records.
        bindE (call (FilterParent (''is_'' @ feature_name))
                 (registry_filter_one_or_none env registry (''is_'' @ feature_name)))
          (\<lambda>is_feature.
        bindE (case is_feature of
                 None \<Rightarrow>
                   bindE (call (NewParent [(''name'', ''is_'' @ feature_name)])
                            (registry_new env registry [(''name'', ''is_'' @ feature_name)]))
                     (\<lambda>is_feature.
                   bindE (call (SaveParent is_feature) (record_save env is_feature)) (\<lambda>_.
                   returnE is_feature))
               | Some is_feature \<Rightarrow> returnE is_feature)
          (\<lambda>is_feature.
        call (ChildrenAdd is_feature all_records) (children_add env is_feature all_records)))))"

subsection \<open>\<open>log_registered_labels\<close> (lines 167 to 194)\<close>

text \<open>The body of the loop over \<open>labels_registered.items()\<close>: what one bucket adds to the
  log.\<close>

definition log_bucket ::
  "string \<Rightarrow> string \<Rightarrow> string \<Rightarrow> bool \<Rightarrow> string \<times> val list \<Rightarrow> log_entry list" where
  "log_bucket labels_type model_field feature_name validated_only item =
     (case item of (key, labels) \<Rightarrow>
        if length labels > 0 then
          (if key = ''without reference'' \<and> validated_only
           then [LogWarning labels_type model_field feature_name labels]
           else [LogSuccess labels_type
                   (if key = ''without reference'' then [] else key @ '' '') model_field labels])
        else [])"

definition log_registered_labels ::
  "(val list) dict \<Rightarrow> string \<Rightarrow> string \<Rightarrow> bool \<Rightarrow> (unit, ('r, 'df, 'w) proc_state) stmt" where
  "log_registered_labels labels_registered feature_name model_field validated_only s =
     (let labels_type = (if feature_name = ''feature'' then ''features'' else ''labels'')
      in (Inr (), s\<lparr>logged := logged s @
            concat (map (log_bucket labels_type model_field feature_name validated_only)
                      labels_registered)\<rparr>))"

subsection \<open>\<open>register_labels\<close> (lines 68 to 164)\<close>

text \<open>The key \<open>f"from {using}"\<close>; \<open>None\<close> is formatted as \<open>None\<close>.\<close>

definition from_key :: "string option \<Rightarrow> string" where
  "from_key using = ''from '' @ (case using of None \<Rightarrow> ''None'' | Some u \<Rightarrow> u)"

text \<open>The loop of lines 146 to 151: \<open>kwargs\<close> is updated in place for each value and a record
  is constructed from it. (The update is also an update of the caller's dictionary; a call
  here takes its arguments by value, so a later call is given its \<open>kwargs\<close> anew.)\<close>

fun new_placeholders ::
  "('r, 'df, 'w) env \<Rightarrow> registry \<Rightarrow> field_attr \<Rightarrow> val list \<Rightarrow> kwargs \<Rightarrow> 'r list \<Rightarrow>
     ('r list, ('r, 'df, 'w) proc_state) stmt" where
  "new_placeholders env registry field [] kwargs non_validated_records s =
     (Inr non_validated_records, s)"
| "new_placeholders env registry field (v # rest) kwargs non_validated_records s =
     (let kwargs = dict_set (fname field) v kwargs;
          kwargs = (if registry = Feature then dict_set ''type'' ''category'' kwargs else kwargs)
      in case call (NewPlaceholder kwargs) (registry_new env registry kwargs) s of
           (Inl e, s') \<Rightarrow> (Inl e, s')
         | (Inr r, s') \<Rightarrow>
             new_placeholders env registry field rest kwargs (non_validated_records @ [r]) s')"

text \<open>Lines 134 to 152, entered when \<open>validated_only\<close> is false.\<close>

definition register_non_validated ::
  "('r, 'df, 'w) env \<Rightarrow> field_attr \<Rightarrow> string option \<Rightarrow> kwargs \<Rightarrow> 'df option \<Rightarrow> (val list) dict \<Rightarrow>
     ((val list) dict, ('r, 'df, 'w) proc_state) stmt" where
  "register_non_validated env field using kwargs df labels_registered =
     (let registry = model field in
      bindE (if df \<noteq> None \<and> registry = Feature then
               bindE (call (FeatureFromDf (the df)) (feature_from_df env (the df)))
                 (\<lambda>non_validated_records.
               returnE (non_validated_records,
                 dict_set ''without reference''
                   [col \<leftarrow> df_columns env (the df).
                      col \<notin> set (dict_get labels_registered ''from public'') \<and>
                      col \<notin> set (dict_get labels_registered (from_key using))]
                   labels_registered))
             else
               bindE (new_placeholders env registry field
                        (dict_get labels_registered ''without reference'') kwargs [])
                 (\<lambda>non_validated_records.
               returnE (non_validated_records, labels_registered)))
        (\<lambda>(non_validated_records, labels_registered).
      bindE (call (SavePlaceholders non_validated_records) (ln_save env non_validated_records))
        (\<lambda>_.
      returnE labels_registered)))"

text \<open>The body of the \<open>try\<close> block, lines 97 to 156. It ends in \<open>None\<close> at the \<open>return\<close> of
  line 106 and in \<open>Some labels_registered\<close> when control reaches the end of the block.\<close>

definition register_labels_try ::
  "('r, 'df, 'w) env \<Rightarrow> val list \<Rightarrow> field_attr \<Rightarrow> string \<Rightarrow> string option \<Rightarrow> bool \<Rightarrow> kwargs \<Rightarrow>
     'df option \<Rightarrow> string \<Rightarrow> ((val list) dict option, ('r, 'df, 'w) proc_state) stmt" where
  "register_labels_try env values field feature_name using validated_only kwargs df verbosity0 =
     (let registry = model field in
      bindE (set_verbosity ''error'') (\<lambda>_.
      bindE (call (InspectCurrent values) (registry_inspect env None values field kwargs))
        (\<lambda>inspect_result_current.
      if length (non_validated inspect_result_current) = 0 then
        bindE (set_verbosity verbosity0) (\<lambda>_. returnE None)
      else
        (let labels_registered = [(''from public'', []), (''without reference'', [])] in
         bindE (register_labels_from_using_instance env (non_validated inspect_result_current)
                  field using (Some kwargs))
           (\<lambda>(from_using, non_validated_labels).
         let labels_registered = dict_set (from_key using) from_using labels_registered in
         bindE (if length non_validated_labels > 0
                then call (FromValues non_validated_labels)
                       (registry_from_values env non_validated_labels field kwargs)
                else returnE [])
           (\<lambda>from_values_records.
         bindE (call (SavePublic from_values_records) (ln_save env from_values_records)) (\<lambda>_.
         let labels_registered =
               dict_set ''from public''
                 (map (\<lambda>r. getattr env r (fname field)) from_values_records) labels_registered;
             labels_registered =
               dict_set ''without reference''
                 [i \<leftarrow> non_validated_labels. i \<notin> set (dict_get labels_registered ''from public'')]
                 labels_registered
         in
         bindE (if \<not> validated_only
                then register_non_validated env field using kwargs df labels_registered
                else returnE labels_registered)
           (\<lambda>labels_registered.
         bindE (if registry = ULabel \<and> fname field = ''name''
                then register_ulabels_with_parent env values field feature_name
                else returnE ())
           (\<lambda>_.
         returnE (Some labels_registered))))))))))"

text \<open>The value a call returns: both exits of \<open>register_labels\<close> (the \<open>return\<close> of line 106 and
  the end of the function after line 164) return Python's \<open>None\<close>, which is \<open>None\<close> here. A
  report would be \<open>Some (partition, parent)\<close>.\<close>

type_synonym 'r report = "(val list) dict \<times> 'r option"

definition register_labels ::
  "('r, 'df, 'w) env \<Rightarrow> val list \<Rightarrow> field_attr \<Rightarrow> string \<Rightarrow> string option \<Rightarrow> bool \<Rightarrow>
     kwargs option \<Rightarrow> 'df option \<Rightarrow> ('r report option, ('r, 'df, 'w) proc_state) stmt" where
  "register_labels env values field feature_name using validated_only kwargs df =
     (let kwargs = (case kwargs of None \<Rightarrow> [] | Some k \<Rightarrow> k);
          registry = model field;
          validated_only = (if \<not> has_public env registry then False else validated_only)
      in
      bindE (call (NeedsOrganism registry (map_of kwargs ''organism''))
               (check_if_registry_needs_organism env registry (map_of kwargs ''organism'')))
        (\<lambda>_ s.
           (let verbosity0 = verbosity s in
            bindE (try_finally
                     (register_labels_try env values field feature_name using validated_only
                        kwargs df verbosity0)
                     (\<lambda>s. s\<lparr>verbosity := verbosity0\<rparr>))
              (\<lambda>labels_registered.
                 case labels_registered of
                   None \<Rightarrow> returnE None
                 | Some labels_registered \<Rightarrow>
                     bindE (log_registered_labels labels_registered feature_name
                              (registry_name registry @ ''.'' @ fname field) validated_only)
                       (\<lambda>_. returnE None))) s))"

section \<open>A registry backend\<close>

text \<open>
  The registries themselves are not part of the module. For the properties that depend on
  what a registry holds between two calls, the collaborators are given one concrete
  behaviour, taken from the specification: an instance is the list of the records persisted
  in it, and a record is its model with its attributes.
\<close>

record lrecord =
  rmodel :: registry
  rattrs :: kwargs

record store =
  local_records :: "lrecord list"
  instances :: "(string \<times> lrecord list) list"
  links :: "(lrecord \<times> lrecord) list"

text \<open>What is fixed outside the registries: which models have a public reference, which
  values that reference can construct a record for, and which models need an organism.\<close>

record vocab =
  with_public :: "registry \<Rightarrow> bool"
  constructible :: "registry \<Rightarrow> string \<Rightarrow> val \<Rightarrow> bool"
  organism_scoped :: "registry \<Rightarrow> bool"

definition attr :: "lrecord \<Rightarrow> string \<Rightarrow> val" where
  "attr r n = (case map_of (rattrs r) n of Some v \<Rightarrow> v | None \<Rightarrow> [])"

definition lookup :: "registry \<Rightarrow> string \<Rightarrow> val \<Rightarrow> lrecord list \<Rightarrow> lrecord list" where
  "lookup reg n v rs = [r \<leftarrow> rs. rmodel r = reg \<and> attr r n = v]"

text \<open>Modelled from the spec: persisting is an upsert, not a blind insert (section 4.2):
  saving what is stored already changes nothing.\<close>

definition upsert :: "'a \<Rightarrow> 'a list \<Rightarrow> 'a list" where
  "upsert r rs = (if r \<in> set rs then rs else rs @ [r])"

text \<open>Modelled from the spec: the context requirement predicate (sections 4.1, 6 and 7) of
  \<open>check_if_registry_needs_organism\<close>, which is not in the module: a model that needs an
  organism fails with the missing-context error when none is supplied.\<close>

definition spec_needs_organism ::
  "vocab \<Rightarrow> registry \<Rightarrow> string option \<Rightarrow> store \<Rightarrow> (error + bool) \<times> store" where
  "spec_needs_organism voc reg organism w =
     (if organism_scoped voc reg
      then (case organism of None \<Rightarrow> (Inl MissingContext, w) | Some _ \<Rightarrow> (Inr True, w))
      else (Inr False, w))"

text \<open>Modelled from the spec: the Inspector (section 4.1) behind \<open>registry.inspect\<close>:
  duplicates are coalesced, a value is validated when a record of the model holds it under
  the field, the result partitions the distinct values, and nothing is written.\<close>

definition inspect_in :: "lrecord list \<Rightarrow> val list \<Rightarrow> field_attr \<Rightarrow> inspect_result" where
  "inspect_in rs values field =
     \<lparr>validated = [v \<leftarrow> remdups values. lookup (model field) (fname field) v rs \<noteq> []],
      non_validated = [v \<leftarrow> remdups values. lookup (model field) (fname field) v rs = []]\<rparr>"

definition spec_inspect ::
  "string option \<Rightarrow> val list \<Rightarrow> field_attr \<Rightarrow> kwargs \<Rightarrow> store \<Rightarrow> (error + inspect_result) \<times> store" where
  "spec_inspect inst values field kwargs w =
     (case inst of
        None \<Rightarrow> (Inr (inspect_in (local_records w) values field), w)
      | Some u \<Rightarrow>
          (case map_of (instances w) u of
             None \<Rightarrow> (Inl (UnknownInstance u), w)
           | Some rs \<Rightarrow> (Inr (inspect_in rs values field), w)))"

text \<open>Modelled from the spec: instance resolution (sections 6 and 7) behind
  \<open>_registry_using\<close>: a handle for a named instance, or the unknown-instance error.\<close>

definition spec_registry_using :: "registry \<Rightarrow> string \<Rightarrow> store \<Rightarrow> (error + unit) \<times> store" where
  "spec_registry_using reg u w =
     (case map_of (instances w) u of
        None \<Rightarrow> (Inl (UnknownInstance u), w)
      | Some _ \<Rightarrow> (Inr (), w))"

text \<open>Modelled from the spec: bulk filter (section 6) behind \<open>registry_using.filter\<close>: the
  records of the model in the named instance whose field value is among the given ones.\<close>

definition spec_filter_in ::
  "string \<Rightarrow> field_attr \<Rightarrow> val list \<Rightarrow> store \<Rightarrow> (error + lrecord list) \<times> store" where
  "spec_filter_in u field vals w =
     (case map_of (instances w) u of
        None \<Rightarrow> (Inl (UnknownInstance u), w)
      | Some rs \<Rightarrow>
          (Inr [r \<leftarrow> rs. rmodel r = model field \<and> attr r (fname field) \<in> set vals], w))"

text \<open>Modelled from the spec: \<open>record.save()\<close> and \<open>ln.save(records)\<close> persist into the local
  registry (sections 4.2 and 4.3).\<close>

definition spec_record_save :: "lrecord \<Rightarrow> store \<Rightarrow> (error + unit) \<times> store" where
  "spec_record_save r w = (Inr (), w\<lparr>local_records := upsert r (local_records w)\<rparr>)"

definition spec_ln_save :: "lrecord list \<Rightarrow> store \<Rightarrow> (error + unit) \<times> store" where
  "spec_ln_save rs w = (Inr (), w\<lparr>local_records := fold upsert rs (local_records w)\<rparr>)"

text \<open>Modelled from the spec: \<open>registry.from_values\<close> (sections 4.3, 4.5 and 6): the record of
  each distinct value is fetched when the local registry holds one, constructed from the
  public reference when that can construct it, and absent otherwise; nothing is written.\<close>

definition from_value :: "vocab \<Rightarrow> field_attr \<Rightarrow> lrecord list \<Rightarrow> val \<Rightarrow> lrecord list" where
  "from_value voc field rs v =
     (case lookup (model field) (fname field) v rs of
        r # _ \<Rightarrow> [r]
      | [] \<Rightarrow>
          if with_public voc (model field) \<and> constructible voc (model field) (fname field) v
          then [\<lparr>rmodel = model field, rattrs = [(fname field, v)]\<rparr>]
          else [])"

definition spec_from_values ::
  "vocab \<Rightarrow> val list \<Rightarrow> field_attr \<Rightarrow> kwargs \<Rightarrow> store \<Rightarrow> (error + lrecord list) \<times> store" where
  "spec_from_values voc values field kwargs w =
     (Inr (concat (map (from_value voc field (local_records w)) (remdups values))), w)"

text \<open>Modelled from the spec: \<open>ln.Feature.from_df\<close> (section 4.4): one candidate feature
  record per column label of the dataframe, the stored one when there is one. A dataframe
  is the list of its column labels.\<close>

definition feature_of_column :: "lrecord list \<Rightarrow> val \<Rightarrow> lrecord" where
  "feature_of_column rs c =
     (case lookup Feature ''name'' c rs of
        r # _ \<Rightarrow> r
      | [] \<Rightarrow> \<lparr>rmodel = Feature, rattrs = [(''name'', c)]\<rparr>)"

definition spec_feature_from_df :: "val list \<Rightarrow> store \<Rightarrow> (error + lrecord list) \<times> store" where
  "spec_feature_from_df df w = (Inr (map (feature_of_column (local_records w)) df), w)"

text \<open>Modelled from the spec: record creation (section 3): the constructor builds a record
  of the model from the attributes it is given and writes nothing.\<close>

definition spec_registry_new :: "registry \<Rightarrow> kwargs \<Rightarrow> store \<Rightarrow> (error + lrecord) \<times> store" where
  "spec_registry_new reg kw w = (Inr \<lparr>rmodel = reg, rattrs = kw\<rparr>, w)"

text \<open>Modelled from the spec: the look-up of the parent by name (section 4.5) behind
  \<open>registry.filter(name=...).one_or_none()\<close>: the stored record of that name, none when there
  is none, an error when there are several.\<close>

definition spec_filter_one_or_none ::
  "registry \<Rightarrow> string \<Rightarrow> store \<Rightarrow> (error + lrecord option) \<times> store" where
  "spec_filter_one_or_none reg name w =
     (case lookup reg ''name'' name (local_records w) of
        [] \<Rightarrow> (Inr None, w)
      | [r] \<Rightarrow> (Inr (Some r), w)
      | _ \<Rightarrow> (Inl MultipleResultsFound, w))"

text \<open>Modelled from the spec: the adjacency relation (section 4.5) behind
  \<open>parent.children.add\<close>: adding a child that is linked already is a no-op.\<close>

definition spec_children_add :: "lrecord \<Rightarrow> lrecord list \<Rightarrow> store \<Rightarrow> (error + unit) \<times> store" where
  "spec_children_add p rs w = (Inr (), w\<lparr>links := fold upsert (map (Pair p) rs) (links w)\<rparr>)"

definition spec_env :: "vocab \<Rightarrow> (lrecord, val list, store) env" where
  "spec_env voc =
     \<lparr>has_public = with_public voc,
      check_if_registry_needs_organism = spec_needs_organism voc,
      registry_inspect = spec_inspect,
      registry_using = spec_registry_using,
      registry_filter_in = spec_filter_in,
      record_save = spec_record_save,
      registry_from_values = spec_from_values voc,
      ln_save = spec_ln_save,
      feature_from_df = spec_feature_from_df,
      df_columns = (\<lambda>df. df),
      registry_new = spec_registry_new,
      registry_filter_one_or_none = spec_filter_one_or_none,
      children_add = spec_children_add,
      getattr = attr\<rparr>"

subsection \<open>The example of the specification\<close>

text \<open>The values \<open>liver\<close>, \<open>heart\<close> and \<open>unknowntissue\<close>: the local registry holds \<open>liver\<close>, the
  instance \<open>remote\<close> holds \<open>heart\<close>, and the public reference constructs nothing.\<close>

definition named :: "registry \<Rightarrow> val \<Rightarrow> lrecord" where
  "named reg v = \<lparr>rmodel = reg, rattrs = [(''name'', v)]\<rparr>"

definition ex_vocab :: vocab where
  "ex_vocab =
     \<lparr>with_public = (\<lambda>reg. reg = Other ''Tissue''),
      constructible = (\<lambda>reg n v. False),
      organism_scoped = (\<lambda>reg. False)\<rparr>"

definition ex_store :: "registry \<Rightarrow> store" where
  "ex_store reg =
     \<lparr>local_records = [named reg ''liver''],
      instances = [(''remote'', [named reg ''heart'']), (''public'', [named reg ''heart''])],
      links = []\<rparr>"

definition ex_state :: "registry \<Rightarrow> (lrecord, val list, store) proc_state" where
  "ex_state reg = \<lparr>verbosity = ''warning'', world = ex_store reg, trace = [], logged = []\<rparr>"

definition ex_values :: "val list" where
  "ex_values = [''liver'', ''heart'', ''unknowntissue'']"

definition ex_field :: "registry \<Rightarrow> field_attr" where
  "ex_field reg = \<lparr>model = reg, fname = ''name''\<rparr>"

text \<open>A dataframe of features: its columns are \<open>age\<close> and \<open>sex\<close>, and the local registry
  holds the feature \<open>age\<close>.\<close>

definition df_state :: "(lrecord, val list, store) proc_state" where
  "df_state =
     \<lparr>verbosity = ''warning'',
      world = \<lparr>local_records = [named Feature ''age''], instances = [], links = []\<rparr>,
      trace = [], logged = []\<rparr>"

section \<open>Notions used in the statements\<close>

text \<open>The calls of the placeholder stage (lines 134 to 152).\<close>

fun placeholder_event :: "('r, 'df) event \<Rightarrow> bool" where
  "placeholder_event (FeatureFromDf _) = True"
| "placeholder_event (NewPlaceholder _) = True"
| "placeholder_event (SavePlaceholders _) = True"
| "placeholder_event _ = False"



text \<open>The attributes the loop of lines 146 to 151 constructs the record of a value from.\<close>

definition placeholder_kwargs :: "registry \<Rightarrow> field_attr \<Rightarrow> kwargs \<Rightarrow> val \<Rightarrow> kwargs" where
  "placeholder_kwargs registry field kwargs v =
     (let kwargs = dict_set (fname field) v kwargs
      in if registry = Feature then dict_set ''type'' ''category'' kwargs else kwargs)"





text \<open>The records handed to a persisting call, in the order of the calls: \<open>record.save\<close> at
  lines 207 and 243, \<open>ln.save\<close> at lines 127 and 152, and the children given to
  \<open>children.add\<close> at line 209.\<close>

fun written :: "('r, 'df) event list \<Rightarrow> 'r list" where
  "written [] = []"
| "written (SaveFromUsing r # evs) = r # written evs"
| "written (SavePublic rs # evs) = rs @ written evs"
| "written (SavePlaceholders rs # evs) = rs @ written evs"
| "written (SaveParent p # evs) = p # written evs"
| "written (ChildrenAdd p rs # evs) = rs @ written evs"
| "written (_ # evs) = written evs"

text \<open>The parent records saved at line 207, and the parents of the calls of
  \<open>children.add\<close> at line 209, in the order of the calls.\<close>

fun parents_saved :: "('r, 'df) event list \<Rightarrow> 'r list" where
  "parents_saved [] = []"
| "parents_saved (SaveParent p # evs) = p # parents_saved evs"
| "parents_saved (_ # evs) = parents_saved evs"

fun parents_linked :: "('r, 'df) event list \<Rightarrow> 'r list" where
  "parents_linked [] = []"
| "parents_linked (ChildrenAdd p _ # evs) = p # parents_linked evs"
| "parents_linked (_ # evs) = parents_linked evs"

text \<open>One call of \<open>register_ulabels_with_parent\<close> after the other for the same feature name,
  each with its own values, each on the state the one before left (also when that one
  raised).\<close>

fun register_ulabels_with_parent_calls ::
  "('r, 'df, 'w) env \<Rightarrow> val list list \<Rightarrow> field_attr \<Rightarrow> string \<Rightarrow> ('r, 'df, 'w) proc_state \<Rightarrow>
     ('r, 'df, 'w) proc_state" where
  "register_ulabels_with_parent_calls env [] field feature_name s = s"
| "register_ulabels_with_parent_calls env (values # rest) field feature_name s =
     register_ulabels_with_parent_calls env rest field feature_name
       (snd (register_ulabels_with_parent env values field feature_name s))"

text \<open>The parent record that line 206 constructs.\<close>

definition parent_of :: "string \<Rightarrow> lrecord" where
  "parent_of feature_name = \<lparr>rmodel = ULabel, rattrs = [(''name'', ''is_'' @ feature_name)]\<rparr>"

text \<open>The registries after a call, stage by stage, as functions of the registries before
  it. They are what the steps of \<open>register_labels\<close> do on the registry backend above (lemma
  \<open>world_after_register_labels\<close>); the idempotence of a call is proved on them.\<close>

definition using_records :: "field_attr \<Rightarrow> lrecord list \<Rightarrow> val list \<Rightarrow> lrecord list" where
  "using_records field rs vals =
     [r \<leftarrow> rs. rmodel r = model field
               \<and> attr r (fname field) \<in> set (validated (inspect_in rs vals field))]"

definition after_using ::
  "field_attr \<Rightarrow> string option \<Rightarrow> val list \<Rightarrow> store \<Rightarrow> (val list \<times> store) option" where
  "after_using field using vals w =
     (if using = None \<or> using = Some ''default'' then Some (vals, w)
      else case map_of (instances w) (the using) of
             None \<Rightarrow> None
           | Some rs \<Rightarrow>
               Some (non_validated (inspect_in rs vals field),
                     w\<lparr>local_records := fold upsert (using_records field rs vals)
                                           (local_records w)\<rparr>))"

definition public_records :: "vocab \<Rightarrow> field_attr \<Rightarrow> val list \<Rightarrow> lrecord list \<Rightarrow> lrecord list" where
  "public_records voc field nvl rs =
     (if length nvl > 0 then concat (map (from_value voc field rs) (remdups nvl)) else [])"

definition placeholder_records ::
  "field_attr \<Rightarrow> kwargs \<Rightarrow> val list option \<Rightarrow> val list \<Rightarrow> lrecord list \<Rightarrow> lrecord list" where
  "placeholder_records field kw df without_reference rs =
     (if df \<noteq> None \<and> model field = Feature
      then map (feature_of_column rs) (the df)
      else map (\<lambda>v. \<lparr>rmodel = model field,
                       rattrs = placeholder_kwargs (model field) field kw v\<rparr>)
             without_reference)"

definition after_parent :: "vocab \<Rightarrow> val list \<Rightarrow> field_attr \<Rightarrow> string \<Rightarrow> store \<Rightarrow> store" where
  "after_parent voc vals field feature_name w =
     (let all_records = concat (map (from_value voc field (local_records w)) (remdups vals))
      in case lookup ULabel ''name'' (''is_'' @ feature_name) (local_records w) of
           [] \<Rightarrow> w\<lparr>local_records := local_records w @ [parent_of feature_name],
                   links := fold upsert (map (Pair (parent_of feature_name)) all_records)
                              (links w)\<rparr>
         | [q] \<Rightarrow> w\<lparr>links := fold upsert (map (Pair q) all_records) (links w)\<rparr>
         | _ \<Rightarrow> w)"

definition after_try ::
  "vocab \<Rightarrow> val list \<Rightarrow> field_attr \<Rightarrow> string \<Rightarrow> string option \<Rightarrow> bool \<Rightarrow> kwargs \<Rightarrow>
     val list option \<Rightarrow> store \<Rightarrow> store" where
  "after_try voc vals field feature_name using validated_only kw df w =
     (let nv = non_validated (inspect_in (local_records w) vals field)
      in if nv = [] then w
         else case after_using field using nv w of
                None \<Rightarrow> w
              | Some (nvl, w1) \<Rightarrow>
                  (let recs = public_records voc field nvl (local_records w1);
                       w2 = w1\<lparr>local_records := fold upsert recs (local_records w1)\<rparr>;
                       without_reference =
                         [i \<leftarrow> nvl. i \<notin> set (map (\<lambda>r. attr r (fname field)) recs)];
                       w3 = (if \<not> validated_only
                             then w2\<lparr>local_records :=
                                      fold upsert
                                        (placeholder_records field kw df without_reference
                                           (local_records w2))
                                        (local_records w2)\<rparr>
                             else w2)
                   in if model field = ULabel \<and> fname field = ''name''
                      then after_parent voc vals field feature_name w3
                      else w3))"

definition after_register_labels ::
  "vocab \<Rightarrow> val list \<Rightarrow> field_attr \<Rightarrow> string \<Rightarrow> string option \<Rightarrow> bool \<Rightarrow> kwargs option \<Rightarrow>
     val list option \<Rightarrow> store \<Rightarrow> store" where
  "after_register_labels voc vals field feature_name using validated_only kwargs df w =
     (let kw = (case kwargs of None \<Rightarrow> [] | Some k \<Rightarrow> k)
      in if organism_scoped voc (model field) \<and> map_of kw ''organism'' = None then w
         else after_try voc vals field feature_name using
                (with_public voc (model field) \<and> validated_only) kw df w)"

text \<open>A registry on which a call has nothing left to write: no value that is still
  non-validated locally is validated by the using instance or constructible from the public
  reference, the records of the placeholder stage are stored, and the parent stage is not
  reached.\<close>

definition settled ::
  "vocab \<Rightarrow> val list \<Rightarrow> field_attr \<Rightarrow> string option \<Rightarrow> bool \<Rightarrow> kwargs \<Rightarrow> val list option \<Rightarrow>
     store \<Rightarrow> bool" where
  "settled voc vals field using validated_only kw df w \<longleftrightarrow>
     (let nv = non_validated (inspect_in (local_records w) vals field)
      in (\<forall>u rs. using = Some u \<and> u \<noteq> ''default'' \<and> map_of (instances w) u = Some rs \<longrightarrow>
            (\<forall>v\<in>set nv. lookup (model field) (fname field) v rs = []))
       \<and> (\<forall>v\<in>set nv. \<not> (with_public voc (model field)
                             \<and> constructible voc (model field) (fname field) v))
       \<and> (\<not> validated_only \<longrightarrow>
            (if df \<noteq> None \<and> model field = Feature
             then \<forall>c\<in>set (the df). lookup Feature ''name'' c (local_records w) \<noteq> []
             else \<forall>v\<in>set nv.
                    \<lparr>rmodel = model field,
                     rattrs = placeholder_kwargs (model field) field kw v\<rparr>
                      \<in> set (local_records w)))
       \<and> (model field = ULabel \<and> fname field = ''name'' \<longrightarrow> nv = []))"

text \<open>An observation of the state that a statement leaves as it is, however it ends.\<close>

definition stable :: "('s \<Rightarrow> 'x) \<Rightarrow> ('a, 's) stmt \<Rightarrow> bool" where
  "stable obs m \<longleftrightarrow> (\<forall>s. obs (snd (m s)) = obs s)"

text \<open>What the specification promises of the collaborators (sections 3, 4.2 and 4.3): an
  inspection partitions the values it is given; the filter on the using instance finds a
  record for each value that instance validated, and only for those; \<open>from_values\<close> returns
  records of values it was given.\<close>

definition inspect_partitions :: "('r, 'df, 'w) env \<Rightarrow> bool" where
  "inspect_partitions env \<longleftrightarrow>
     (\<forall>inst vals field kw w res w'.
        registry_inspect env inst vals field kw w = (Inr res, w') \<longrightarrow>
        set (validated res) \<union> set (non_validated res) = set vals \<and>
        set (validated res) \<inter> set (non_validated res) = {})"

definition filter_finds_validated :: "('r, 'df, 'w) env \<Rightarrow> bool" where
  "filter_finds_validated env \<longleftrightarrow>
     (\<forall>u vals field kw w res w' recs w''.
        registry_inspect env (Some u) vals field kw w = (Inr res, w') \<and>
        registry_filter_in env u field (validated res) w' = (Inr recs, w'') \<longrightarrow>
        set (map (\<lambda>r. getattr env r (fname field)) recs) = set (validated res))"

definition from_values_within :: "('r, 'df, 'w) env \<Rightarrow> bool" where
  "from_values_within env \<longleftrightarrow>
     (\<forall>vals field kw w recs w'.
        registry_from_values env vals field kw w = (Inr recs, w') \<longrightarrow>
        set (map (\<lambda>r. getattr env r (fname field)) recs) \<subseteq> set vals)"

section \<open>Properties\<close>

subsection \<open>Dictionaries and keys\<close>

lemma dict_get_set: "dict_get (dict_set k v d) k' = (if k' = k then v else dict_get d k')"
  by (induction d) (auto simp: dict_get_def)

lemma dict_set_twice: "dict_set k v (dict_set k v' d) = dict_set k v d"
  by (induction d) auto

lemma dict_set_keys: "fst ` set (dict_set k v d) = insert k (fst ` set d)"
  by (induction d) auto

lemma dict_set_commute:
  "k \<noteq> k' \<Longrightarrow> k \<in> fst ` set d \<Longrightarrow>
     dict_set k v (dict_set k' v' d) = dict_set k' v' (dict_set k v d)"
  by (induction d) auto


lemma map_of_dict_set:
  "map_of (dict_set k v d) k' = (if k' = k then Some v else map_of d k')"
  by (induction d) auto



lemma from_key_neq: "from_key using \<noteq> ''without reference''"
  by (simp add: from_key_def)

lemma from_key_public: "from_key using = ''from public'' \<longleftrightarrow> using = Some ''public''"
  by (auto simp: from_key_def split: option.splits)

lemma placeholder_kwargs_absorb:
  "placeholder_kwargs reg field (placeholder_kwargs reg field kw v') v
     = placeholder_kwargs reg field kw v"
proof (cases "reg = Feature")
  case False
  then show ?thesis by (simp add: placeholder_kwargs_def dict_set_twice)
next
  case True
  show ?thesis
  proof (cases "fname field = ''type''")
    case t: True
    show ?thesis using True t by (simp add: placeholder_kwargs_def dict_set_twice)
  next
    case f: False
    have "dict_set (fname field) v (dict_set ''type'' ''category'' (dict_set (fname field) v' kw))
            = dict_set ''type'' ''category'' (dict_set (fname field) v (dict_set (fname field) v' kw))"
      using f by (intro dict_set_commute) (simp_all add: dict_set_keys)
    then show ?thesis using True by (simp add: placeholder_kwargs_def dict_set_twice)
  qed
qed



lemma written_append: "written (evs @ evs') = written evs @ written evs'"
  by (induction evs rule: written.induct) simp_all





subsection \<open>Statements\<close>

lemma call_verbosity: "call ev f s = (r, s1) \<Longrightarrow> verbosity s1 = verbosity s"
  by (auto simp: call_def split: prod.splits)

lemma callD:
  assumes "call ev f s = (r, s1)"
  shows "f (world s) = (r, world s1)" and "trace s1 = trace s @ [ev]"
    and "verbosity s1 = verbosity s" and "logged s1 = logged s"
  using assms by (auto simp: call_def split: prod.splits)

lemma bindE_InrE:
  assumes "bindE m f s = (Inr b, s')"
  obtains a s1 where "m s = (Inr a, s1)" and "f a s1 = (Inr b, s')"
  using assms by (auto simp: bindE_def split: prod.splits sum.splits)


lemma stable_returnE: "stable obs (returnE x)"
  by (simp add: stable_def returnE_def)

lemma stable_bindE:
  assumes "stable obs m" and "\<And>a. stable obs (f a)"
  shows "stable obs (bindE m f)"
proof -
  have "obs (snd (bindE m f s)) = obs s" for s
  proof (cases "m s")
    case (Pair r s1)
    have 1: "obs s1 = obs s" using assms(1) Pair by (auto simp: stable_def dest: spec [of _ s])
    show ?thesis
    proof (cases r)
      case (Inl e)
      then show ?thesis using Pair 1 by (simp add: bindE_def)
    next
      case (Inr a)
      have "obs (snd (f a s1)) = obs s1" using assms(2) [of a] by (simp add: stable_def)
      then show ?thesis using Pair Inr 1 by (simp add: bindE_def)
    qed
  qed
  then show ?thesis by (simp add: stable_def)
qed

lemma stable_call:
  assumes "\<And>s w. obs (s\<lparr>world := w, trace := trace s @ [ev]\<rparr>) = obs s"
  shows "stable obs (call ev f)"
  using assms by (simp add: stable_def call_def split: prod.splits)

lemma stable_set_verbosity:
  assumes "\<And>s. obs (s\<lparr>verbosity := v\<rparr>) = obs s"
  shows "stable obs (set_verbosity v)"
  using assms by (simp add: stable_def set_verbosity_def)

lemma stable_raise: "stable obs (\<lambda>s. (Inl e, s))"
  by (simp add: stable_def)

lemma stable_if:
  assumes "c \<Longrightarrow> stable obs a" and "\<not> c \<Longrightarrow> stable obs b"
  shows "stable obs (if c then a else b)"
  using assms by simp

lemma stable_case_prod:
  assumes "\<And>a b. stable obs (f a b)"
  shows "stable obs (case p of (a, b) \<Rightarrow> f a b)"
  using assms by (cases p) simp

lemma stable_case_option:
  assumes "stable obs a" and "\<And>x. stable obs (f x)"
  shows "stable obs (case p of None \<Rightarrow> a | Some x \<Rightarrow> f x)"
  using assms by (cases p) simp_all

lemma stable_try_finally:
  assumes "stable obs body" and "\<And>s. obs (fin s) = obs s"
  shows "stable obs (try_finally body fin)"
  using assms by (simp add: stable_def try_finally_def split: prod.splits) (metis snd_conv)

lemma stable_read:
  assumes "\<And>v. stable obs (m v)"
  shows "stable obs (\<lambda>s. m (g s) s)"
  using assms by (simp add: stable_def)

lemma stable_log:
  assumes "\<And>s l. obs (s\<lparr>logged := l\<rparr>) = obs s"
  shows "stable obs (log_registered_labels d fn mf vo)"
  using assms by (simp add: stable_def log_registered_labels_def Let_def)


subsection \<open>The functions of the module, step by step\<close>

lemma save_labels_using_result:
  "save_labels_using env field ls acc s = (Inr res, s1) \<Longrightarrow>
     res = acc @ map (\<lambda>r. getattr env r (fname field)) ls"
proof (induction ls arbitrary: acc s)
  case Nil
  then show ?case by simp
next
  case (Cons l ls)
  from Cons.prems obtain s2 where
    "save_labels_using env field ls (acc @ [getattr env l (fname field)]) s2 = (Inr res, s1)"
    by (auto split: prod.splits sum.splits)
  from Cons.IH [OF this] show ?case by simp
qed

lemma stable_save_labels_using:
  assumes "\<And>r s w. obs (s\<lparr>world := w, trace := trace s @ [SaveFromUsing r]\<rparr>) = obs s"
  shows "stable obs (save_labels_using env field ls acc)"
proof -
  have "obs (snd (save_labels_using env field ls acc s)) = obs s" for s
  proof (induction ls arbitrary: acc s)
    case Nil
    then show ?case by simp
  next
    case (Cons l ls)
    show ?case
      using Cons.IH assms
      by (auto simp: call_def split: prod.splits sum.splits)
  qed
  then show ?thesis by (simp add: stable_def)
qed

lemma from_using_InrE:
  assumes "register_labels_from_using_instance env values field using kwargs s
             = (Inr (from_using, nvl), s')"
  obtains (absent) "using = None \<or> using = Some ''default''"
      and "from_using = []" and "nvl = values" and "s' = s"
  | (present) u res s1 s2 recs s3 where "using = Some u" and "u \<noteq> ''default''"
      and "call (RegistryUsing (model field) u) (registry_using env (model field) u) s
             = (Inr (), s1)"
      and "call (InspectUsing u values)
             (registry_inspect env (Some u) values field
                (case kwargs of None \<Rightarrow> [] | Some k \<Rightarrow> k)) s1 = (Inr res, s2)"
      and "call (FilterUsing u (validated res))
             (registry_filter_in env u field (validated res)) s2 = (Inr recs, s3)"
      and "save_labels_using env field recs [] s3 = (Inr from_using, s')"
      and "nvl = non_validated res"
  using assms that
  unfolding register_labels_from_using_instance_def Let_def
  by (auto simp: bindE_def returnE_def split: prod.splits sum.splits if_splits)

lemma stable_from_using:
  assumes "\<And>ev s w. \<not> placeholder_event ev \<Longrightarrow> ev \<noteq> FromValues [] \<Longrightarrow>
             obs (s\<lparr>world := w, trace := trace s @ [ev]\<rparr>) = obs s"
  shows "stable obs (register_labels_from_using_instance env values field using kwargs)"
  unfolding register_labels_from_using_instance_def Let_def
  by (intro stable_if stable_bindE stable_call stable_returnE stable_save_labels_using assms)
     simp_all

lemma stable_with_parent:
  assumes "\<And>ev s w. \<not> placeholder_event ev \<Longrightarrow> ev \<noteq> FromValues [] \<Longrightarrow>
             obs (s\<lparr>world := w, trace := trace s @ [ev]\<rparr>) = obs s"
  shows "stable obs (register_ulabels_with_parent env values field feature_name)"
  unfolding register_ulabels_with_parent_def Let_def
  by (intro stable_if stable_bindE stable_call stable_returnE stable_raise stable_case_option
        assms)
     simp_all





lemma register_non_validated_InrE:
  assumes "register_non_validated env field using kwargs df lr s = (Inr lr', s')"
  obtains (dataframe) d recs s1 where "df = Some d" and "model field = Feature"
      and "call (FeatureFromDf d) (feature_from_df env d) s = (Inr recs, s1)"
      and "lr' = dict_set ''without reference''
                   [col \<leftarrow> df_columns env d.
                      col \<notin> set (dict_get lr ''from public'') \<and>
                      col \<notin> set (dict_get lr (from_key using))] lr"
      and "call (SavePlaceholders recs) (ln_save env recs) s1 = (Inr (), s')"
  | (generic) recs s1 where "df = None \<or> model field \<noteq> Feature"
      and "new_placeholders env (model field) field (dict_get lr ''without reference'')
             kwargs [] s = (Inr recs, s1)"
      and "lr' = lr"
      and "call (SavePlaceholders recs) (ln_save env recs) s1 = (Inr (), s')"
  using assms that
  unfolding register_non_validated_def Let_def
  by (auto simp: bindE_def returnE_def split: prod.splits sum.splits if_splits)


lemma register_labels_try_SomeE:
  assumes "register_labels_try env values field feature_name using validated_only kwargs df
             verbosity0 s = (Inr (Some lr), s')"
  obtains current s1 from_using nvl s2 recs s3 s4 lr3 s5 where
    "call (InspectCurrent values) (registry_inspect env None values field kwargs)
       (s\<lparr>verbosity := ''error''\<rparr>) = (Inr current, s1)"
    and "non_validated current \<noteq> []"
    and "register_labels_from_using_instance env (non_validated current) field using
           (Some kwargs) s1 = (Inr (from_using, nvl), s2)"
    and "(if length nvl > 0
          then call (FromValues nvl) (registry_from_values env nvl field kwargs)
          else returnE []) s2 = (Inr recs, s3)"
    and "call (SavePublic recs) (ln_save env recs) s3 = (Inr (), s4)"
    and "lr3 = dict_set ''without reference''
                 [i \<leftarrow> nvl. i \<notin> set (map (\<lambda>r. getattr env r (fname field)) recs)]
                 (dict_set ''from public'' (map (\<lambda>r. getattr env r (fname field)) recs)
                    (dict_set (from_key using) from_using
                       [(''from public'', []), (''without reference'', [])]))"
    and "(if \<not> validated_only
          then register_non_validated env field using kwargs df lr3
          else returnE lr3) s4 = (Inr lr, s5)"
    and "(if model field = ULabel \<and> fname field = ''name''
          then register_ulabels_with_parent env values field feature_name
          else returnE ()) s5 = (Inr (), s')"
  using assms that
  unfolding register_labels_try_def Let_def
  by (auto simp: bindE_def returnE_def set_verbosity_def dict_get_set
        split: prod.splits sum.splits if_splits)




lemma stable_try_validated_only:
  "stable (\<lambda>s. filter placeholder_event (trace s))
     (register_labels_try env values field feature_name using True kwargs df verbosity0)"
  unfolding register_labels_try_def Let_def
  by (intro stable_if stable_bindE stable_call stable_returnE stable_set_verbosity
        stable_case_prod stable_from_using stable_with_parent)
     simp_all

lemma from_using_partition:
  assumes "inspect_partitions env" and "filter_finds_validated env"
    and "register_labels_from_using_instance env values field using kwargs s
           = (Inr (from_using, nvl), s')"
  shows "set from_using \<union> set nvl = set values \<and> set from_using \<inter> set nvl = {}"
  using assms(3)
proof (cases rule: from_using_InrE)
  case absent
  then show ?thesis by simp
next
  case (present u res s1 s2 recs s3)
  let ?kw = "case kwargs of None \<Rightarrow> [] | Some k \<Rightarrow> k"
  have i: "registry_inspect env (Some u) values field ?kw (world s1) = (Inr res, world s2)"
    using present(4) by (rule callD)
  have f: "registry_filter_in env u field (validated res) (world s2) = (Inr recs, world s3)"
    using present(5) by (rule callD)
  have p: "set (validated res) \<union> set (non_validated res) = set values"
       "set (validated res) \<inter> set (non_validated res) = {}"
    using assms(1) i unfolding inspect_partitions_def by blast+
  have "set (map (\<lambda>r. getattr env r (fname field)) recs) = set (validated res)"
    using assms(2) i f unfolding filter_finds_validated_def by blast
  moreover have "from_using = map (\<lambda>r. getattr env r (fname field)) recs"
    using save_labels_using_result [OF present(6)] by simp
  ultimately show ?thesis using p present(7) by simp
qed

lemma stable_new_placeholders:
  assumes "\<And>kw s w. obs (s\<lparr>world := w, trace := trace s @ [NewPlaceholder kw]\<rparr>) = obs s"
  shows "stable obs (new_placeholders env reg field vals kw acc)"
proof -
  have "obs (snd (new_placeholders env reg field vals kw acc s)) = obs s" for s
  proof (induction vals arbitrary: kw acc s)
    case Nil
    then show ?case by simp
  next
    case (Cons v vals)
    show ?case
      using Cons.IH assms
      by (auto simp: call_def Let_def split: prod.splits sum.splits)
  qed
  then show ?thesis by (simp add: stable_def)
qed

lemma stable_non_validated:
  assumes "\<And>ev s w. placeholder_event ev \<Longrightarrow>
             obs (s\<lparr>world := w, trace := trace s @ [ev]\<rparr>) = obs s"
  shows "stable obs (register_non_validated env field using kw df lr)"
  unfolding register_non_validated_def Let_def
  by (intro stable_if stable_bindE stable_call stable_returnE stable_case_prod
        stable_new_placeholders assms)
     simp_all

lemma stable_try_from_values:
  "stable (\<lambda>s. FromValues [] \<in> set (trace s))
     (register_labels_try env vals field feature_name using validated_only kw df verbosity0)"
  unfolding register_labels_try_def Let_def
  by (intro stable_if stable_bindE stable_call stable_returnE stable_set_verbosity
        stable_case_prod stable_from_using stable_with_parent stable_non_validated)
     auto



lemma stable_register_labels_from_values:
  "stable (\<lambda>s. FromValues [] \<in> set (trace s))
     (register_labels env vals field feature_name using validated_only kwargs df)"
proof -
  let ?obs = "\<lambda>s :: ('a, 'b, 'c) proc_state. FromValues [] \<in> set (trace s)"
  have "stable ?obs
          (\<lambda>s. bindE (try_finally
                     (register_labels_try env vals field feature_name using vo kw df
                        (verbosity s))
                     (\<lambda>s'. s'\<lparr>verbosity := verbosity s\<rparr>))
              (\<lambda>labels_registered.
                 case labels_registered of
                   None \<Rightarrow> returnE None
                 | Some labels_registered \<Rightarrow>
                     bindE (log_registered_labels labels_registered feature_name mf vo)
                       (\<lambda>_. returnE None)) s)" for kw mf vo
    by (rule stable_read [where g = verbosity])
       (intro stable_bindE stable_try_finally stable_try_from_values stable_case_option
          stable_returnE stable_log, simp_all)
  then show ?thesis
    unfolding register_labels_def Let_def
    by (auto intro!: stable_bindE stable_call)
qed

subsection \<open>The registry backend keeps the promises of the collaborators\<close>

lemma spec_inspect_partitions: "inspect_partitions (spec_env voc)"
  unfolding inspect_partitions_def
  by (auto simp: spec_env_def spec_inspect_def inspect_in_def split: option.splits)

lemma spec_filter_finds_validated: "filter_finds_validated (spec_env voc)"
  unfolding filter_finds_validated_def
  by (auto simp: spec_env_def spec_inspect_def spec_filter_in_def inspect_in_def lookup_def
        filter_empty_conv image_iff
      split: option.splits)

lemma from_value_attr: "r \<in> set (from_value voc field rs v) \<Longrightarrow> attr r (fname field) = v"
  by (auto simp: from_value_def lookup_def attr_def filter_eq_Cons_iff
      split: list.splits if_splits)

lemma spec_from_values_within: "from_values_within (spec_env voc)"
  unfolding from_values_within_def
  by (auto simp: spec_env_def spec_from_values_def dest: from_value_attr)

subsection \<open>What the steps do on the registry backend\<close>

lemma spec_env_sel:
  "has_public (spec_env voc) = with_public voc"
  "check_if_registry_needs_organism (spec_env voc) = spec_needs_organism voc"
  "registry_inspect (spec_env voc) = spec_inspect"
  "registry_using (spec_env voc) = spec_registry_using"
  "registry_filter_in (spec_env voc) = spec_filter_in"
  "record_save (spec_env voc) = spec_record_save"
  "registry_from_values (spec_env voc) = spec_from_values voc"
  "ln_save (spec_env voc) = spec_ln_save"
  "feature_from_df (spec_env voc) = spec_feature_from_df"
  "df_columns (spec_env voc) = (\<lambda>df. df)"
  "registry_new (spec_env voc) = spec_registry_new"
  "registry_filter_one_or_none (spec_env voc) = spec_filter_one_or_none"
  "children_add (spec_env voc) = spec_children_add"
  "getattr (spec_env voc) = attr"
  by (simp_all add: spec_env_def)

lemma bindE_Inr: "m s = (Inr a, s1) \<Longrightarrow> bindE m f s = f a s1"
  by (simp add: bindE_def)

lemma bindE_Inl: "m s = (Inl e, s1) \<Longrightarrow> bindE m f s = (Inl e, s1)"
  by (simp add: bindE_def)

lemma set_verbosity_returnE:
  "bindE (set_verbosity v) (\<lambda>_. returnE x) s = (Inr x, s\<lparr>verbosity := v\<rparr>)"
  by (simp add: bindE_def set_verbosity_def returnE_def)

lemma world_bindE_returnE:
  "world (snd (bindE m (\<lambda>a. returnE (g a)) s)) = world (snd (m s))"
  by (simp add: bindE_def returnE_def split: prod.splits sum.splits)

lemma spec_save_labels_using:
  "save_labels_using (spec_env voc) field recs acc s
     = (Inr (acc @ map (\<lambda>r. attr r (fname field)) recs),
        s\<lparr>world := (world s)\<lparr>local_records := fold upsert recs (local_records (world s))\<rparr>,
          trace := trace s @ map SaveFromUsing recs\<rparr>)"
proof (induction recs arbitrary: acc s)
  case Nil
  then show ?case by simp
next
  case (Cons r recs)
  show ?case
    by (simp add: Cons.IH call_def spec_env_sel spec_record_save_def)
qed

lemma spec_new_placeholders:
  "new_placeholders (spec_env voc) reg field vals kw acc s
     = (Inr (acc @ map (\<lambda>v. \<lparr>rmodel = reg, rattrs = placeholder_kwargs reg field kw v\<rparr>) vals),
        s\<lparr>trace := trace s
             @ map (\<lambda>v. NewPlaceholder (placeholder_kwargs reg field kw v)) vals\<rparr>)"
proof (induction vals arbitrary: kw acc s)
  case Nil
  then show ?case by simp
next
  case (Cons v vals)
  have k: "(let kwargs = dict_set (fname field) v kw;
                kwargs = (if reg = Feature then dict_set ''type'' ''category'' kwargs else kwargs)
            in f kwargs) = f (placeholder_kwargs reg field kw v)" for f :: "kwargs \<Rightarrow> 'z"
    by (simp add: placeholder_kwargs_def Let_def)
  show ?case
    apply (simp only: new_placeholders.simps k)
    apply (simp add: Cons.IH call_def spec_env_sel spec_registry_new_def
          placeholder_kwargs_absorb)
    done
qed

lemma spec_from_using:
  "register_labels_from_using_instance (spec_env voc) vals field using (Some kw) s =
    (if using = None \<or> using = Some ''default'' then (Inr ([], vals), s)
     else case map_of (instances (world s)) (the using) of
        None \<Rightarrow> (Inl (UnknownInstance (the using)),
                 s\<lparr>trace := trace s @ [RegistryUsing (model field) (the using)]\<rparr>)
      | Some rs \<Rightarrow>
          (Inr (map (\<lambda>r. attr r (fname field)) (using_records field rs vals),
                non_validated (inspect_in rs vals field)),
           s\<lparr>world := (world s)
                \<lparr>local_records := fold upsert (using_records field rs vals)
                                      (local_records (world s))\<rparr>,
             trace := trace s @
               [RegistryUsing (model field) (the using), InspectUsing (the using) vals,
                FilterUsing (the using) (validated (inspect_in rs vals field))]
               @ map SaveFromUsing (using_records field rs vals)\<rparr>))"
  by (auto simp: register_labels_from_using_instance_def bindE_def returnE_def
        call_def spec_env_sel spec_registry_using_def spec_inspect_def spec_filter_in_def
        spec_save_labels_using using_records_def Let_def
        split: option.splits)

lemma spec_register_non_validated:
  "register_non_validated (spec_env voc) field using kw df lr s =
     (Inr (if df \<noteq> None \<and> model field = Feature
           then dict_set ''without reference''
                  [col \<leftarrow> the df. col \<notin> set (dict_get lr ''from public'')
                                 \<and> col \<notin> set (dict_get lr (from_key using))] lr
           else lr),
      s\<lparr>world := (world s)
           \<lparr>local_records :=
              fold upsert
                (placeholder_records field kw df (dict_get lr ''without reference'')
                   (local_records (world s)))
                (local_records (world s))\<rparr>,
        trace := trace s @
          (if df \<noteq> None \<and> model field = Feature then [FeatureFromDf (the df)]
           else map (\<lambda>v. NewPlaceholder (placeholder_kwargs (model field) field kw v))
                  (dict_get lr ''without reference''))
          @ [SavePlaceholders
               (placeholder_records field kw df (dict_get lr ''without reference'')
                  (local_records (world s)))]\<rparr>)"
  by (auto simp: register_non_validated_def bindE_def returnE_def call_def spec_env_sel
        spec_feature_from_df_def spec_ln_save_def spec_new_placeholders placeholder_records_def
        Let_def)

lemma lookup_Nil_notin:
  "lookup reg n v rs = [] \<Longrightarrow> rmodel r = reg \<Longrightarrow> attr r n = v \<Longrightarrow> r \<notin> set rs"
  by (auto simp: lookup_def filter_empty_conv)

lemma parent_none:
  assumes "model field = ULabel"
    and "lookup ULabel ''name'' (''is_'' @ feature_name) (local_records (world s)) = []"
  shows "register_ulabels_with_parent (spec_env voc) values field feature_name s
    = (Inr (),
       s\<lparr>world := (world s)
           \<lparr>local_records := local_records (world s) @ [parent_of feature_name],
            links := fold upsert
              (map (Pair (parent_of feature_name))
                 (concat (map (from_value voc field (local_records (world s))) (remdups values))))
              (links (world s))\<rparr>,
         trace := trace s @
           [ParentFromValues values, FilterParent (''is_'' @ feature_name),
            NewParent [(''name'', ''is_'' @ feature_name)], SaveParent (parent_of feature_name),
            ChildrenAdd (parent_of feature_name)
              (concat (map (from_value voc field (local_records (world s))) (remdups values)))]\<rparr>)"
proof -
  have "parent_of feature_name \<notin> set (local_records (world s))"
    using assms(2) by (rule lookup_Nil_notin) (simp_all add: parent_of_def attr_def)
  then show ?thesis
    using assms
    by (simp add: register_ulabels_with_parent_def bindE_def call_def returnE_def spec_env_sel
          spec_from_values_def spec_filter_one_or_none_def spec_registry_new_def
          spec_record_save_def spec_children_add_def upsert_def parent_of_def)
qed

lemma parent_one:
  assumes "model field = ULabel"
    and "lookup ULabel ''name'' (''is_'' @ feature_name) (local_records (world s)) = [q]"
  shows "register_ulabels_with_parent (spec_env voc) values field feature_name s
    = (Inr (),
       s\<lparr>world := (world s)
           \<lparr>links := fold upsert
              (map (Pair q)
                 (concat (map (from_value voc field (local_records (world s))) (remdups values))))
              (links (world s))\<rparr>,
         trace := trace s @
           [ParentFromValues values, FilterParent (''is_'' @ feature_name),
            ChildrenAdd q
              (concat (map (from_value voc field (local_records (world s))) (remdups values)))]\<rparr>)"
  using assms
  by (simp add: register_ulabels_with_parent_def bindE_def call_def returnE_def spec_env_sel
        spec_from_values_def spec_filter_one_or_none_def spec_children_add_def)

lemma parent_many:
  assumes "model field = ULabel"
    and "lookup ULabel ''name'' (''is_'' @ feature_name) (local_records (world s)) = a # b # c"
  shows "register_ulabels_with_parent (spec_env voc) values field feature_name s
    = (Inl MultipleResultsFound,
       s\<lparr>trace := trace s @
           [ParentFromValues values, FilterParent (''is_'' @ feature_name)]\<rparr>)"
  using assms
  by (simp add: register_ulabels_with_parent_def bindE_def call_def returnE_def spec_env_sel
        spec_from_values_def spec_filter_one_or_none_def)

lemma parent_assert:
  assumes "model field \<noteq> ULabel"
  shows "register_ulabels_with_parent env values field feature_name s = (Inl AssertionError, s)"
  using assms by (simp add: register_ulabels_with_parent_def)

lemma world_after_parent:
  assumes "model field = ULabel"
  shows "world (snd (register_ulabels_with_parent (spec_env voc) vals field feature_name s))
           = after_parent voc vals field feature_name (world s)"
proof (cases "lookup ULabel ''name'' (''is_'' @ feature_name) (local_records (world s))")
  case Nil
  then show ?thesis
    using parent_none [OF assms Nil, of voc vals] by (simp add: after_parent_def)
next
  case (Cons q qs)
  show ?thesis
  proof (cases qs)
    case Nil
    with Cons have 1: "lookup ULabel ''name'' (''is_'' @ feature_name) (local_records (world s))
                         = [q]" by simp
    show ?thesis using parent_one [OF assms 1, of voc vals] 1 by (simp add: after_parent_def)
  next
    case (Cons b c)
    with \<open>lookup ULabel ''name'' (''is_'' @ feature_name) (local_records (world s)) = q # qs\<close>
    have 2: "lookup ULabel ''name'' (''is_'' @ feature_name) (local_records (world s))
               = q # b # c" by simp
    show ?thesis using parent_many [OF assms 2, of voc vals] 2 by (simp add: after_parent_def)
  qed
qed

lemma world_after_try:
  "world (snd (register_labels_try (spec_env voc) vals field feature_name using validated_only
       kw df verbosity0 s))
     = after_try voc vals field feature_name using validated_only kw df (world s)"
proof -
  let ?nv = "non_validated (inspect_in (local_records (world s)) vals field)"
  define s1 where "s1 = s\<lparr>verbosity := ''error'', trace := trace s @ [InspectCurrent vals]\<rparr>"
  have w1: "world s1 = world s" by (simp add: s1_def)
  have e0: "set_verbosity ''error'' s = (Inr (), s\<lparr>verbosity := ''error''\<rparr>)"
    by (simp add: set_verbosity_def)
  have e1: "call (InspectCurrent vals) (registry_inspect (spec_env voc) None vals field kw)
              (s\<lparr>verbosity := ''error''\<rparr>)
            = (Inr (inspect_in (local_records (world s)) vals field), s1)"
    by (simp add: call_def spec_env_sel spec_inspect_def s1_def)
  note start =
    bindE_Inr [of "set_verbosity ''error''" s, OF e0]
    bindE_Inr [of "call (InspectCurrent vals)
                     (registry_inspect (spec_env voc) None vals field kw)"
                  "s\<lparr>verbosity := ''error''\<rparr>", OF e1]
  show ?thesis
  proof (cases "?nv = []")
    case True
    then show ?thesis
      unfolding register_labels_try_def Let_def
      by (simp add: start w1 after_try_def set_verbosity_returnE)
  next
    case False
    show ?thesis
    proof (cases "after_using field using ?nv (world s)")
      case None
      then obtain e s2 where
        "register_labels_from_using_instance (spec_env voc) ?nv field using (Some kw) s1
           = (Inl e, s2)" and "world s2 = world s"
        using w1
        by (auto simp: spec_from_using after_using_def split: if_splits option.splits)
      then show ?thesis
        unfolding register_labels_try_def Let_def
        using False None w1
        by (simp add: start bindE_Inl [of "register_labels_from_using_instance (spec_env voc)
              ?nv field using (Some kw)" s1] after_try_def split del: if_split)
    next
      case (Some a)
      obtain nvl wa where a: "a = (nvl, wa)" by (cases a)
      let ?mu = "register_labels_from_using_instance (spec_env voc) ?nv field using (Some kw)"
      obtain fu s2 where
        u: "?mu s1 = (Inr (fu, nvl), s2)" and w2: "world s2 = wa"
        using w1 Some a
        by (auto simp: spec_from_using after_using_def split: if_splits option.splits)
      let ?recs = "public_records voc field nvl (local_records wa)"
      let ?mp = "if length nvl > 0
             then call (FromValues nvl) (registry_from_values (spec_env voc) nvl field kw)
             else returnE []"
      define s3 where
        "s3 = (if length nvl > 0 then s2\<lparr>trace := trace s2 @ [FromValues nvl]\<rparr> else s2)"
      have p: "?mp s2 = (Inr ?recs, s3)" and w3: "world s3 = wa"
        using w2
        by (simp_all add: s3_def call_def returnE_def spec_env_sel spec_from_values_def
              public_records_def)
      let ?wb = "wa\<lparr>local_records := fold upsert ?recs (local_records wa)\<rparr>"
      let ?ms = "call (SavePublic ?recs) (ln_save (spec_env voc) ?recs)"
      define s4 where "s4 = s3\<lparr>world := ?wb, trace := trace s3 @ [SavePublic ?recs]\<rparr>"
      have sv: "?ms s3 = (Inr (), s4)" and w4: "world s4 = ?wb"
        using w3 by (simp_all add: s4_def call_def spec_env_sel spec_ln_save_def)
      let ?W = "[i \<leftarrow> nvl. i \<notin> set (map (\<lambda>r. attr r (fname field)) ?recs)]"
      let ?lr2 = "dict_set ''from public''
                    (map (\<lambda>r. getattr (spec_env voc) r (fname field)) ?recs)
                    (dict_set (from_key using) fu
                       [(''from public'', []), (''without reference'', [])])"
      let ?lr3 = "dict_set ''without reference''
                    [i \<leftarrow> nvl. i \<notin> set (dict_get ?lr2 ''from public'')] ?lr2"
      have W: "dict_get ?lr3 ''without reference'' = ?W"
        by (simp add: dict_get_set spec_env_sel del: dict_set.simps)
      let ?wc = "if \<not> validated_only
                 then ?wb\<lparr>local_records :=
                        fold upsert (placeholder_records field kw df ?W (local_records ?wb))
                          (local_records ?wb)\<rparr>
                 else ?wb"
      let ?ml = "if \<not> validated_only
              then register_non_validated (spec_env voc) field using kw df ?lr3
              else returnE ?lr3"
      obtain lr4 s5 where
        pl: "?ml s4 = (Inr lr4, s5)" and w5: "world s5 = ?wc"
      proof (cases validated_only)
        case True
        show ?thesis
          by (rule that [of ?lr3 s4]) (simp_all add: True returnE_def w4)
      next
        case False
        show ?thesis
          by (rule that [of "projr (fst (?ml s4))" "snd (?ml s4)"])
             (simp_all add: False spec_register_non_validated w4 W del: dict_set.simps)
      qed
      have nz: "(length ?nv = 0) = False" using False by simp
      have rest: "register_labels_try (spec_env voc) vals field feature_name using
          validated_only kw df verbosity0 s
        = bindE (if model field = ULabel \<and> fname field = ''name''
                 then register_ulabels_with_parent (spec_env voc) vals field feature_name
                 else returnE ())
            (\<lambda>_. returnE (Some lr4)) s5"
        unfolding register_labels_try_def Let_def
        by (simp only: start nz if_False bindE_Inr [of ?mu s1, OF u] prod.case
              bindE_Inr [of ?mp s2, OF p] bindE_Inr [of ?ms s3, OF sv]
              bindE_Inr [of ?ml s4, OF pl])
      have "world (snd (bindE (if model field = ULabel \<and> fname field = ''name''
                 then register_ulabels_with_parent (spec_env voc) vals field feature_name
                 else returnE ())
            (\<lambda>_. returnE (Some lr4)) s5))
          = (if model field = ULabel \<and> fname field = ''name''
             then after_parent voc vals field feature_name ?wc else ?wc)"
        using w5 by (simp add: world_bindE_returnE world_after_parent returnE_def)
      then show ?thesis
        using rest False Some a
        by (simp add: after_try_def Let_def)
    qed
  qed
qed

lemma world_register_labels:
  "world (snd (register_labels env vals field feature_name using validated_only kwargs df s))
     = (let kw = (case kwargs of None \<Rightarrow> [] | Some k \<Rightarrow> k)
        in case call (NeedsOrganism (model field) (map_of kw ''organism''))
                  (check_if_registry_needs_organism env (model field) (map_of kw ''organism'')) s
           of (Inl e, s1) \<Rightarrow> world s1
            | (Inr b, s1) \<Rightarrow>
                world (snd (register_labels_try env vals field feature_name using
                  (has_public env (model field) \<and> validated_only) kw df (verbosity s1) s1)))"
  by (simp add: register_labels_def bindE_def try_finally_def returnE_def
        log_registered_labels_def Let_def
      split: prod.splits sum.splits option.splits)

lemma world_after_register_labels:
  "world (snd (register_labels (spec_env voc) vals field feature_name using validated_only
       kwargs df s))
     = after_register_labels voc vals field feature_name using validated_only kwargs df
         (world s)"
  by (simp add: world_register_labels world_after_try after_register_labels_def Let_def
        call_def spec_env_sel spec_needs_organism_def
      split: option.splits)

lemma trace_register_labels:
  "trace (snd (register_labels env vals field feature_name using validated_only kwargs df s))
     = (let kw = (case kwargs of None \<Rightarrow> [] | Some k \<Rightarrow> k)
        in case call (NeedsOrganism (model field) (map_of kw ''organism''))
                  (check_if_registry_needs_organism env (model field) (map_of kw ''organism'')) s
           of (Inl e, s1) \<Rightarrow> trace s1
            | (Inr b, s1) \<Rightarrow>
                trace (snd (register_labels_try env vals field feature_name using
                  (has_public env (model field) \<and> validated_only) kw df (verbosity s1) s1)))"
  by (simp add: register_labels_def bindE_def try_finally_def returnE_def
        log_registered_labels_def Let_def
      split: prod.splits sum.splits option.splits)


subsection \<open>Repeated calls of the parent stage\<close>

lemma parents_saved_append:
  "parents_saved (evs @ evs') = parents_saved evs @ parents_saved evs'"
  by (induction evs rule: parents_saved.induct) simp_all

lemma parents_linked_append:
  "parents_linked (evs @ evs') = parents_linked evs @ parents_linked evs'"
  by (induction evs rule: parents_linked.induct) simp_all

lemma calls_assert:
  assumes "model field \<noteq> ULabel"
  shows "register_ulabels_with_parent_calls env vss field feature_name s = s"
  using assms by (induction vss arbitrary: s) (simp_all add: parent_assert)

lemma calls_many:
  assumes "model field = ULabel"
    and "lookup ULabel ''name'' (''is_'' @ feature_name) (local_records (world s)) = a # b # c"
  shows "parents_saved (trace (register_ulabels_with_parent_calls (spec_env voc) vss field
            feature_name s)) = parents_saved (trace s)
       \<and> parents_linked (trace (register_ulabels_with_parent_calls (spec_env voc) vss field
            feature_name s)) = parents_linked (trace s)"
  using assms(2)
proof (induction vss arbitrary: s)
  case Nil
  then show ?case by simp
next
  case (Cons vals vss)
  let ?s1 = "s\<lparr>trace := trace s @
           [ParentFromValues vals, FilterParent (''is_'' @ feature_name)]\<rparr>"
  have "lookup ULabel ''name'' (''is_'' @ feature_name) (local_records (world ?s1)) = a # b # c"
    using Cons.prems by simp
  from Cons.IH [OF this] show ?case
    using parent_many [OF assms(1) Cons.prems]
    by (simp add: parents_saved_append parents_linked_append)
qed

lemma calls_one:
  assumes "model field = ULabel"
    and "lookup ULabel ''name'' (''is_'' @ feature_name) (local_records (world s)) = [q]"
  shows "\<exists>linked.
           parents_saved (trace (register_ulabels_with_parent_calls (spec_env voc) vss field
             feature_name s)) = parents_saved (trace s)
         \<and> parents_linked (trace (register_ulabels_with_parent_calls (spec_env voc) vss field
             feature_name s)) = parents_linked (trace s) @ linked
         \<and> set linked \<subseteq> {q}"
  using assms(2)
proof (induction vss arbitrary: s)
  case Nil
  then show ?case by simp
next
  case (Cons vals vss)
  let ?recs = "concat (map (from_value voc field (local_records (world s))) (remdups vals))"
  let ?s1 = "s\<lparr>world := (world s)
           \<lparr>links := fold upsert (map (Pair q) ?recs) (links (world s))\<rparr>,
         trace := trace s @
           [ParentFromValues vals, FilterParent (''is_'' @ feature_name),
            ChildrenAdd q ?recs]\<rparr>"
  have "lookup ULabel ''name'' (''is_'' @ feature_name) (local_records (world ?s1)) = [q]"
    using Cons.prems by simp
  from Cons.IH [OF this] obtain linked where
    "parents_saved (trace (register_ulabels_with_parent_calls (spec_env voc) vss field
             feature_name ?s1)) = parents_saved (trace ?s1)"
    "parents_linked (trace (register_ulabels_with_parent_calls (spec_env voc) vss field
             feature_name ?s1)) = parents_linked (trace ?s1) @ linked"
    "set linked \<subseteq> {q}"
    by blast
  then show ?case
    using parent_one [OF assms(1) Cons.prems, of voc vals]
    by (auto simp: parents_saved_append parents_linked_append intro!: exI [of _ "q # linked"])
qed

lemma calls_none:
  assumes "model field = ULabel"
    and "lookup ULabel ''name'' (''is_'' @ feature_name) (local_records (world s)) = []"
  shows "\<exists>created linked.
           parents_saved (trace (register_ulabels_with_parent_calls (spec_env voc) vss field
             feature_name s)) = parents_saved (trace s) @ created
         \<and> parents_linked (trace (register_ulabels_with_parent_calls (spec_env voc) vss field
             feature_name s)) = parents_linked (trace s) @ linked
         \<and> length created \<le> 1
         \<and> set created \<subseteq> {parent_of feature_name}
         \<and> set linked \<subseteq> {parent_of feature_name}"
proof (cases vss)
  case Nil
  then show ?thesis by simp
next
  case (Cons vals rest)
  let ?p = "parent_of feature_name"
  let ?recs = "concat (map (from_value voc field (local_records (world s))) (remdups vals))"
  let ?s1 = "s\<lparr>world := (world s)
           \<lparr>local_records := local_records (world s) @ [?p],
            links := fold upsert (map (Pair ?p) ?recs) (links (world s))\<rparr>,
         trace := trace s @
           [ParentFromValues vals, FilterParent (''is_'' @ feature_name),
            NewParent [(''name'', ''is_'' @ feature_name)], SaveParent ?p,
            ChildrenAdd ?p ?recs]\<rparr>"
  have "lookup ULabel ''name'' (''is_'' @ feature_name) (local_records (world ?s1)) = [?p]"
    using assms(2) by (simp add: lookup_def parent_of_def attr_def)
  from calls_one [OF assms(1) this, of voc rest] obtain linked where
    "parents_saved (trace (register_ulabels_with_parent_calls (spec_env voc) rest field
             feature_name ?s1)) = parents_saved (trace ?s1)"
    "parents_linked (trace (register_ulabels_with_parent_calls (spec_env voc) rest field
             feature_name ?s1)) = parents_linked (trace ?s1) @ linked"
    "set linked \<subseteq> {?p}"
    by blast
  then show ?thesis
    using parent_none [OF assms, of voc vals] Cons
    by (auto simp: parents_saved_append parents_linked_append
          intro!: exI [of _ "[?p]"] exI [of _ "?p # linked"])
qed

subsection \<open>A second call finds nothing to write\<close>

lemma set_fold_upsert: "set (fold upsert rs L) = set rs \<union> set L"
  by (induction rs arbitrary: L) (auto simp: upsert_def)

lemma fold_upsert_absorb: "set rs \<subseteq> set L \<Longrightarrow> fold upsert rs L = L"
  by (induction rs arbitrary: L) (auto simp: upsert_def)

lemma lookup_empty:
  "lookup reg n v rs = [] \<longleftrightarrow> (\<forall>r\<in>set rs. \<not> (rmodel r = reg \<and> attr r n = v))"
  by (auto simp: lookup_def filter_empty_conv)

lemma lookup_hd: "lookup reg n v rs = r # rest \<Longrightarrow> r \<in> set rs \<and> rmodel r = reg \<and> attr r n = v"
  by (auto simp: lookup_def filter_eq_Cons_iff)

lemma non_validated_set:
  "set (non_validated (inspect_in L vals field))
     = {v \<in> set vals. lookup (model field) (fname field) v L = []}"
  by (auto simp: inspect_in_def)

lemma validated_set:
  "set (validated (inspect_in L vals field))
     = {v \<in> set vals. lookup (model field) (fname field) v L \<noteq> []}"
  by (auto simp: inspect_in_def)

lemma non_validated_distinct: "distinct (non_validated (inspect_in L vals field))"
  by (simp add: inspect_in_def)

lemma non_validated_all:
  assumes "distinct vals" and "\<forall>v\<in>set vals. lookup (model field) (fname field) v L = []"
  shows "non_validated (inspect_in L vals field) = vals"
    and "validated (inspect_in L vals field) = []"
  using assms by (simp_all add: inspect_in_def filter_empty_conv)

lemma from_value_props:
  "r \<in> set (from_value voc field rs v) \<Longrightarrow> rmodel r = model field \<and> attr r (fname field) = v"
  by (auto simp: from_value_def attr_def split: list.splits if_splits dest: lookup_hd)

lemma from_value_empty:
  "from_value voc field rs v = [] \<longleftrightarrow>
     lookup (model field) (fname field) v rs = []
     \<and> \<not> (with_public voc (model field) \<and> constructible voc (model field) (fname field) v)"
  by (auto simp: from_value_def split: list.splits)

lemma feature_of_column_props:
  "rmodel (feature_of_column rs c) = Feature \<and> attr (feature_of_column rs c) ''name'' = c"
  by (auto simp: feature_of_column_def attr_def split: list.splits dest: lookup_hd)

lemma feature_of_column_stored:
  "lookup Feature ''name'' c rs \<noteq> [] \<Longrightarrow> feature_of_column rs c \<in> set rs"
  by (auto simp: feature_of_column_def split: list.splits dest: lookup_hd)

lemma after_parent_local:
  "set (local_records w) \<subseteq> set (local_records (after_parent voc vals field feature_name w))"
  "instances (after_parent voc vals field feature_name w) = instances w"
  by (auto simp: after_parent_def Let_def split: list.splits)

lemma settled_fixed:
  assumes "settled voc vals field using validated_only kw df w"
  shows "after_try voc vals field feature_name using validated_only kw df w = w"
proof -
  let ?L = "local_records w"
  let ?nv = "non_validated (inspect_in ?L vals field)"
  show ?thesis
  proof (cases "?nv = []")
    case True
    then show ?thesis by (simp add: after_try_def)
  next
    case False
    have d: "distinct ?nv" by (rule non_validated_distinct)
    have nvL: "lookup (model field) (fname field) v ?L = []" if "v \<in> set ?nv" for v
      using that by (simp add: non_validated_set)
    have u: "after_using field using ?nv w = None \<or> after_using field using ?nv w = Some (?nv, w)"
    proof (cases "using = None \<or> using = Some ''default''")
      case True
      then show ?thesis by (simp add: after_using_def)
    next
      case absent: False
      then obtain u where u: "using = Some u" "u \<noteq> ''default''" by auto
      show ?thesis
      proof (cases "map_of (instances w) u")
        case None
        then show ?thesis using u by (simp add: after_using_def)
      next
        case (Some rs)
        have "\<forall>v\<in>set ?nv. lookup (model field) (fname field) v rs = []"
          using assms u Some unfolding settled_def Let_def by blast
        from non_validated_all [OF d this]
        show ?thesis using u Some by (simp add: after_using_def using_records_def)
      qed
    qed
    have "from_value voc field ?L v = []" if "v \<in> set ?nv" for v
      using assms that nvL [OF that] unfolding settled_def Let_def from_value_empty by blast
    then have pub: "public_records voc field ?nv ?L = []"
      by (simp add: public_records_def)
    have place: "fold upsert (placeholder_records field kw df ?nv ?L) ?L = ?L"
      if "\<not> validated_only"
    proof (rule fold_upsert_absorb)
      show "set (placeholder_records field kw df ?nv ?L) \<subseteq> set ?L"
      proof (cases "df \<noteq> None \<and> model field = Feature")
        case True
        then have "\<forall>c\<in>set (the df). lookup Feature ''name'' c ?L \<noteq> []"
          using assms that unfolding settled_def Let_def by simp
        then show ?thesis
          using True by (auto simp: placeholder_records_def intro: feature_of_column_stored)
      next
        case False
        then have "\<forall>v\<in>set ?nv.
                    \<lparr>rmodel = model field,
                     rattrs = placeholder_kwargs (model field) field kw v\<rparr> \<in> set ?L"
          using assms that unfolding settled_def Let_def by simp
        then show ?thesis
          using False by (auto simp: placeholder_records_def)
      qed
    qed
    have link: "\<not> (model field = ULabel \<and> fname field = ''name'')"
      using assms False unfolding settled_def Let_def by blast
    from u show ?thesis
    proof
      assume "after_using field using ?nv w = None"
      then show ?thesis using False by (simp add: after_try_def)
    next
      assume "after_using field using ?nv w = Some (?nv, w)"
      then show ?thesis
        using False pub place link
        by (auto simp: after_try_def Let_def)
    qed
  qed
qed

lemma after_try_settled:
  assumes nopub: "\<not> with_public voc ULabel"
    and eff: "validated_only \<longrightarrow> with_public voc (model field)"
    and nv0: "non_validated (inspect_in (local_records w) vals field) \<noteq> []"
    and us: "after_using field using (non_validated (inspect_in (local_records w) vals field)) w
               = Some (nvl, w1)"
  shows "settled voc vals field using validated_only kw df
           (after_try voc vals field feature_name using validated_only kw df w)"
proof -
  let ?reg = "model field" and ?f = "fname field"
  define L0 where "L0 = local_records w"
  define nv0 where "nv0 = non_validated (inspect_in L0 vals field)"
  define La where "La = local_records w1"
  define recs where "recs = public_records voc field nvl La"
  define Lb where "Lb = fold upsert recs La"
  define W where "W = [i \<leftarrow> nvl. i \<notin> set (map (\<lambda>r. attr r ?f) recs)]"
  define Lc where "Lc = (if \<not> validated_only
             then fold upsert (placeholder_records field kw df W Lb) Lb else Lb)"
  define w3 where "w3 = w1\<lparr>local_records := Lc\<rparr>"
  define w' where "w' = after_try voc vals field feature_name using validated_only kw df w"
  define L' where "L' = local_records w'"
  define nv' where "nv' = non_validated (inspect_in L' vals field)"
  have us': "after_using field using nv0 w = Some (nvl, w1)"
    using us by (simp add: nv0_def L0_def)
  have w': "w' = (if ?reg = ULabel \<and> ?f = ''name''
                   then after_parent voc vals field feature_name w3 else w3)"
    using nv0 us
    by (simp add: w'_def after_try_def Let_def w3_def Lc_def W_def Lb_def recs_def La_def)
  have inst1: "instances w1 = instances w"
    using us' by (auto simp: after_using_def split: if_splits option.splits)
  have inst: "instances w' = instances w"
    using inst1 by (simp add: w' after_parent_local w3_def)
  have La: "set L0 \<subseteq> set La"
    using us' unfolding La_def L0_def
    by (auto simp: after_using_def set_fold_upsert split: if_splits option.splits)
  have Lb: "set La \<subseteq> set Lb" by (simp add: Lb_def set_fold_upsert)
  have Lb_recs: "set recs \<subseteq> set Lb" by (simp add: Lb_def set_fold_upsert)
  have Lc: "set Lb \<subseteq> set Lc" by (auto simp: Lc_def set_fold_upsert)
  have Lc_place: "set (placeholder_records field kw df W Lb) \<subseteq> set Lc" if "\<not> validated_only"
    using that by (auto simp: Lc_def set_fold_upsert)
  have L': "set Lc \<subseteq> set L'"
    using after_parent_local(1) [of w3 voc vals field feature_name]
    by (auto simp: w' L'_def w3_def)
  have stored: "lookup ?reg ?f v L' \<noteq> []" if "r \<in> set L'" "rmodel r = ?reg" "attr r ?f = v"
    for r v
    using that by (auto simp: lookup_empty)
  have nv'_sub: "v \<in> set nv0" if "v \<in> set nv'" for v
    using that La Lb Lc L' unfolding nv'_def nv0_def non_validated_set lookup_empty by blast
  have nv'_L: "lookup ?reg ?f v L' = []" if "v \<in> set nv'" for v
    using that by (simp add: nv'_def non_validated_set)
  \<comment> \<open>no value left is validated by the using instance\<close>
  have s_using: "lookup ?reg ?f v rs = []"
    if "using = Some u" "u \<noteq> ''default''" "map_of (instances w) u = Some rs" "v \<in> set nv'"
    for u rs v
  proof (rule ccontr)
    assume ne: "lookup ?reg ?f v rs \<noteq> []"
    then obtain r where r: "r \<in> set rs" "rmodel r = ?reg" "attr r ?f = v"
      by (auto simp: lookup_empty)
    have "v \<in> set (validated (inspect_in rs nv0 field))"
      using nv'_sub [OF that(4)] ne by (simp add: validated_set)
    then have "r \<in> set (using_records field rs nv0)"
      using r by (simp add: using_records_def)
    moreover have "La = fold upsert (using_records field rs nv0) L0"
      using us' that(1-3) by (auto simp: after_using_def La_def L0_def)
    ultimately have "r \<in> set L'" using Lb Lc L' by (auto simp: set_fold_upsert)
    from stored [OF this r(2,3)] nv'_L [OF that(4)] show False by simp
  qed
  have in_nvl: "v \<in> set nvl" if "v \<in> set nv'" for v
  proof (cases "using = None \<or> using = Some ''default''")
    case True
    then have "nvl = nv0" using us' by (simp add: after_using_def)
    then show ?thesis using nv'_sub [OF that] by simp
  next
    case False
    then obtain u where u: "using = Some u" "u \<noteq> ''default''" by auto
    then obtain rs where rs: "map_of (instances w) u = Some rs"
      and "nvl = non_validated (inspect_in rs nv0 field)"
      using us' by (auto simp: after_using_def split: option.splits)
    then show ?thesis
      using s_using [OF u rs that] nv'_sub [OF that] by (simp add: non_validated_set)
  qed
  have recs_stored: "lookup ?reg ?f v L' \<noteq> []" if "r \<in> set recs" "attr r ?f = v" for r v
  proof -
    from that(1) obtain x where "r \<in> set (from_value voc field La x)"
      by (auto simp: recs_def public_records_def split: if_splits)
    then have "rmodel r = ?reg" by (simp add: from_value_props)
    moreover have "r \<in> set L'" using that(1) Lb_recs Lc L' by blast
    ultimately show ?thesis using that(2) stored by blast
  qed
  \<comment> \<open>no value left is constructible from the public reference\<close>
  have s_public: "\<not> (with_public voc ?reg \<and> constructible voc ?reg ?f v)" if "v \<in> set nv'" for v
  proof
    assume c: "with_public voc ?reg \<and> constructible voc ?reg ?f v"
    have v: "v \<in> set nvl" by (rule in_nvl [OF that])
    have "from_value voc field La v \<noteq> []" using c by (simp add: from_value_empty)
    then obtain r where r: "r \<in> set (from_value voc field La v)"
      by (cases "from_value voc field La v") auto
    then have "r \<in> set recs" using v by (auto simp: recs_def public_records_def)
    moreover have "attr r ?f = v" using r by (simp add: from_value_props)
    ultimately show False using recs_stored nv'_L [OF that] by blast
  qed
  have in_W: "v \<in> set W" if "v \<in> set nv'" for v
    using in_nvl [OF that] recs_stored nv'_L [OF that] by (auto simp: W_def)
  \<comment> \<open>the records of the placeholder stage are stored\<close>
  have s_df: "lookup Feature ''name'' c L' \<noteq> []"
    if "\<not> validated_only" "df \<noteq> None" "?reg = Feature" "c \<in> set (the df)" for c
  proof -
    have "feature_of_column Lb c \<in> set (placeholder_records field kw df W Lb)"
      using that by (auto simp: placeholder_records_def)
    then have "feature_of_column Lb c \<in> set L'" using Lc_place [OF that(1)] L' by blast
    then show ?thesis
      using feature_of_column_props [of Lb c] by (auto simp: lookup_empty)
  qed
  have s_generic: "\<lparr>rmodel = ?reg, rattrs = placeholder_kwargs ?reg field kw v\<rparr> \<in> set L'"
    if "\<not> validated_only" "\<not> (df \<noteq> None \<and> ?reg = Feature)" "v \<in> set nv'" for v
  proof -
    have "\<lparr>rmodel = ?reg, rattrs = placeholder_kwargs ?reg field kw v\<rparr>
            \<in> set (placeholder_records field kw df W Lb)"
      using that(2) in_W [OF that(3)] by (auto simp: placeholder_records_def)
    then show ?thesis using Lc_place [OF that(1)] L' by blast
  qed
  \<comment> \<open>with the label registry every value has its placeholder, so none is left\<close>
  have s_link: "nv' = []" if "?reg = ULabel" "?f = ''name''"
  proof (rule ccontr)
    assume "nv' \<noteq> []"
    then obtain v where v: "v \<in> set nv'" by (cases nv') auto
    have "\<not> validated_only" using nopub eff that(1) by auto
    from s_generic [OF this _ v] that
    have "\<lparr>rmodel = ULabel, rattrs = dict_set ''name'' v kw\<rparr> \<in> set L'"
      by (simp add: placeholder_kwargs_def)
    moreover have "attr \<lparr>rmodel = ULabel, rattrs = dict_set ''name'' v kw\<rparr> ''name'' = v"
      by (induction kw) (auto simp: attr_def)
    ultimately have "lookup ?reg ?f v L' \<noteq> []"
      using that stored [of "\<lparr>rmodel = ULabel, rattrs = dict_set ''name'' v kw\<rparr>" v]
      by simp
    then show False using nv'_L [OF v] by simp
  qed
  have "settled voc vals field using validated_only kw df w'"
    unfolding settled_def Let_def L'_def [symmetric] nv'_def [symmetric]
    using s_using s_public s_df s_generic s_link inst
    by auto
  then show ?thesis by (simp add: w'_def)
qed

lemma after_try_idempotent:
  assumes "\<not> with_public voc ULabel"
    and "validated_only \<longrightarrow> with_public voc (model field)"
  shows "after_try voc vals field feature_name using validated_only kw df
           (after_try voc vals field feature_name using validated_only kw df w)
         = after_try voc vals field feature_name using validated_only kw df w"
proof (cases "non_validated (inspect_in (local_records w) vals field) = []")
  case True
  then show ?thesis by (simp add: after_try_def)
next
  case False
  show ?thesis
  proof (cases "after_using field using
                  (non_validated (inspect_in (local_records w) vals field)) w")
    case None
    then have "after_try voc vals field feature_name using validated_only kw df w = w"
      by (simp add: after_try_def Let_def)
    then show ?thesis by simp
  next
    case (Some a)
    obtain nvl w1 where "a = (nvl, w1)" by (cases a)
    with Some after_try_settled [OF assms False] show ?thesis
      by (simp add: settled_fixed)
  qed
qed

lemma attr_placeholder:
  assumes "\<not> (reg = Feature \<and> fname field = ''type'')"
  shows "attr \<lparr>rmodel = reg, rattrs = placeholder_kwargs reg field kw v\<rparr> (fname field) = v"
  using assms by (auto simp: attr_def placeholder_kwargs_def map_of_dict_set Let_def)

lemma written_try_settled:
  assumes se: "non_validated (inspect_in (local_records (world s)) vals field) \<noteq> [] \<Longrightarrow>
               using = None \<or> using = Some ''default''
                 \<or> map_of (instances (world s)) (the using) \<noteq> None \<Longrightarrow>
               settled voc vals field using validated_only kw df (world s)"
    and ft: "model field = Feature \<longrightarrow> df = None \<and> fname field \<noteq> ''type''"
  shows "written (trace (snd (register_labels_try (spec_env voc) vals field feature_name using
           validated_only kw df verbosity0 s))) = written (trace s)"
proof -
  let ?L = "local_records (world s)"
  let ?nv = "non_validated (inspect_in ?L vals field)"
  define s1 where "s1 = s\<lparr>verbosity := ''error'', trace := trace s @ [InspectCurrent vals]\<rparr>"
  have w1: "world s1 = world s" and t1: "trace s1 = trace s @ [InspectCurrent vals]"
    by (simp_all add: s1_def)
  have e0: "set_verbosity ''error'' s = (Inr (), s\<lparr>verbosity := ''error''\<rparr>)"
    by (simp add: set_verbosity_def)
  have e1: "call (InspectCurrent vals) (registry_inspect (spec_env voc) None vals field kw)
              (s\<lparr>verbosity := ''error''\<rparr>)
            = (Inr (inspect_in ?L vals field), s1)"
    by (simp add: call_def spec_env_sel spec_inspect_def s1_def)
  note start =
    bindE_Inr [of "set_verbosity ''error''" s, OF e0]
    bindE_Inr [of "call (InspectCurrent vals)
                     (registry_inspect (spec_env voc) None vals field kw)"
                  "s\<lparr>verbosity := ''error''\<rparr>", OF e1]
  let ?mu = "register_labels_from_using_instance (spec_env voc) ?nv field using (Some kw)"
  show ?thesis
  proof (cases "?nv = []")
    case True
    then show ?thesis
      unfolding register_labels_try_def Let_def
      by (simp add: start t1 set_verbosity_returnE written_append)
  next
    case False
    show ?thesis
    proof (cases "using = None \<or> using = Some ''default''
                    \<or> map_of (instances (world s)) (the using) \<noteq> None")
      case unknown: False
      then have "?mu s1 = (Inl (UnknownInstance (the using)),
                   s1\<lparr>trace := trace s1 @ [RegistryUsing (model field) (the using)]\<rparr>)"
        using w1 by (simp add: spec_from_using)
      then show ?thesis
        unfolding register_labels_try_def Let_def
        using False t1
        by (simp add: start bindE_Inl [of ?mu s1] written_append split del: if_split)
    next
      case known: True
      have se: "settled voc vals field using validated_only kw df (world s)"
        using se False known by blast
      have d: "distinct ?nv" by (rule non_validated_distinct)
      have nvL: "lookup (model field) (fname field) v ?L = []" if "v \<in> set ?nv" for v
        using that by (simp add: non_validated_set)
      obtain v0 where v0: "v0 \<in> set ?nv" using False by (cases ?nv) auto
      \<comment> \<open>the placeholder stage is not reached: its records would validate the values\<close>
      have vo: validated_only
      proof (rule ccontr)
        assume n: "\<not> validated_only"
        have "\<not> (df \<noteq> None \<and> model field = Feature)" using ft by auto
        then have "\<lparr>rmodel = model field,
                     rattrs = placeholder_kwargs (model field) field kw v0\<rparr> \<in> set ?L"
          using se n v0 unfolding settled_def Let_def by auto
        moreover have "attr \<lparr>rmodel = model field,
                             rattrs = placeholder_kwargs (model field) field kw v0\<rparr>
                         (fname field) = v0"
          using ft by (intro attr_placeholder) auto
        ultimately show False using nvL [OF v0] by (auto simp: lookup_empty)
      qed
      have link: "\<not> (model field = ULabel \<and> fname field = ''name'')"
        using se False unfolding settled_def Let_def by blast
      have "\<exists>fu s2. ?mu s1 = (Inr (fu, ?nv), s2) \<and> world s2 = world s
                 \<and> written (trace s2) = written (trace s)"
      proof (cases "using = None \<or> using = Some ''default''")
        case True
        then show ?thesis using w1 t1 by (simp add: spec_from_using written_append)
      next
        case absent: False
        then obtain u where u: "using = Some u" "u \<noteq> ''default''" by auto
        with known obtain rs where rs: "map_of (instances (world s)) u = Some rs" by auto
        have "\<forall>v\<in>set ?nv. lookup (model field) (fname field) v rs = []"
          using se u rs unfolding settled_def Let_def by blast
        from non_validated_all [OF d this]
        show ?thesis using u rs w1 t1
          by (simp add: spec_from_using using_records_def written_append)
      qed
      then obtain fu s2 where
        u2: "?mu s1 = (Inr (fu, ?nv), s2)" and w2: "world s2 = world s"
        and t2: "written (trace s2) = written (trace s)"
        by blast
      have "from_value voc field ?L v = []" if "v \<in> set ?nv" for v
        using se that nvL [OF that] unfolding settled_def Let_def from_value_empty by blast
      then have pub: "concat (map (from_value voc field ?L) (remdups ?nv)) = []"
        by simp
      let ?mp = "if length ?nv > 0
             then call (FromValues ?nv) (registry_from_values (spec_env voc) ?nv field kw)
             else returnE []"
      define s3 where "s3 = s2\<lparr>trace := trace s2 @ [FromValues ?nv]\<rparr>"
      have p: "?mp s2 = (Inr [], s3)" and w3: "world s3 = world s"
        using w2 False pub
        by (simp_all add: s3_def call_def spec_env_sel spec_from_values_def)
      let ?ms = "call (SavePublic []) (ln_save (spec_env voc) [])"
      define s4 where "s4 = s3\<lparr>trace := trace s3 @ [SavePublic []]\<rparr>"
      have sv: "?ms s3 = (Inr (), s4)"
        by (simp add: s4_def call_def spec_env_sel spec_ln_save_def)
      have t4: "written (trace s4) = written (trace s)"
        using t2 by (simp add: s4_def s3_def written_append)
      have nz: "(length ?nv = 0) = False" using False by simp
      let ?lr3 = "dict_set ''without reference''
                    [i \<leftarrow> ?nv. i \<notin> set (dict_get (dict_set ''from public''
                        (map (\<lambda>r. getattr (spec_env voc) r (fname field)) [])
                        (dict_set (from_key using) fu
                           [(''from public'', []), (''without reference'', [])]))
                        ''from public'')]
                    (dict_set ''from public''
                        (map (\<lambda>r. getattr (spec_env voc) r (fname field)) [])
                        (dict_set (from_key using) fu
                           [(''from public'', []), (''without reference'', [])]))"
      let ?ml = "if \<not> validated_only
              then register_non_validated (spec_env voc) field using kw df ?lr3
              else returnE ?lr3"
      have pl: "?ml s4 = (Inr ?lr3, s4)"
        using vo by (simp add: returnE_def del: dict_set.simps)
      let ?mq = "if model field = ULabel \<and> fname field = ''name''
                 then register_ulabels_with_parent (spec_env voc) vals field feature_name
                 else returnE ()"
      have pq: "?mq s4 = (Inr (), s4)"
        using link by (auto simp: returnE_def)
      have "register_labels_try (spec_env voc) vals field feature_name using
          validated_only kw df verbosity0 s
        = returnE (Some ?lr3) s4"
        unfolding register_labels_try_def Let_def
        by (simp only: start nz if_False bindE_Inr [of ?mu s1, OF u2] prod.case
              bindE_Inr [of ?mp s2, OF p] bindE_Inr [of ?ms s3, OF sv]
              bindE_Inr [of ?ml s4, OF pl] bindE_Inr [of ?mq s4, OF pq])
      then show ?thesis using t4 by (simp add: returnE_def del: dict_set.simps)
    qed
  qed
qed

lemma after_try_quiet:
  assumes "\<not> with_public voc ULabel"
    and "validated_only \<longrightarrow> with_public voc (model field)"
    and "non_validated (inspect_in
           (local_records (after_try voc vals field feature_name using validated_only kw df w))
           vals field) \<noteq> []"
    and "using = None \<or> using = Some ''default''
           \<or> map_of (instances (after_try voc vals field feature_name using validated_only kw df w))
                (the using) \<noteq> None"
  shows "settled voc vals field using validated_only kw df
           (after_try voc vals field feature_name using validated_only kw df w)"
proof (cases "non_validated (inspect_in (local_records w) vals field) = []")
  case True
  then have "after_try voc vals field feature_name using validated_only kw df w = w"
    by (simp add: after_try_def)
  with True assms(3) show ?thesis by simp
next
  case False
  show ?thesis
  proof (cases "after_using field using
                  (non_validated (inspect_in (local_records w) vals field)) w")
    case None
    then have "after_try voc vals field feature_name using validated_only kw df w = w"
      by (simp add: after_try_def Let_def)
    with None assms(4) show ?thesis
      by (auto simp: after_using_def split: if_splits option.splits)
  next
    case (Some a)
    obtain nvl w1 where "a = (nvl, w1)" by (cases a)
    with Some after_try_settled [OF assms(1,2) False] show ?thesis
      by simp
  qed
qed

lemma written_second_call:
  assumes "\<not> with_public voc ULabel"
    and "model field = Feature \<longrightarrow> df = None \<and> fname field \<noteq> ''type''"
  shows "written (trace (snd (register_labels (spec_env voc) vals field feature_name using
                    validated_only kwargs df
                    (snd (register_labels (spec_env voc) vals field feature_name using
                            validated_only kwargs df s)))))
         = written (trace (snd (register_labels (spec_env voc) vals field feature_name using
                            validated_only kwargs df s)))"
proof -
  let ?kw = "case kwargs of None \<Rightarrow> [] | Some k \<Rightarrow> k"
  let ?vo = "with_public voc (model field) \<and> validated_only"
  define s1 where "s1 = snd (register_labels (spec_env voc) vals field feature_name using
                            validated_only kwargs df s)"
  have W: "world s1 = after_register_labels voc vals field feature_name using validated_only
                        kwargs df (world s)"
    by (simp add: s1_def world_after_register_labels)
  show ?thesis
  proof (cases "organism_scoped voc (model field) \<and> map_of ?kw ''organism'' = None")
    case True
    then show ?thesis
      unfolding s1_def [symmetric]
      by (simp add: trace_register_labels [of _ _ _ _ _ _ _ _ s1] call_def spec_env_sel
            spec_needs_organism_def written_append)
  next
    case False
    define s0 where
      "s0 = s1\<lparr>trace := trace s1 @ [NeedsOrganism (model field) (map_of ?kw ''organism'')]\<rparr>"
    have c: "call (NeedsOrganism (model field) (map_of ?kw ''organism''))
               (check_if_registry_needs_organism (spec_env voc) (model field)
                  (map_of ?kw ''organism'')) s1
             = (Inr (organism_scoped voc (model field)), s0)"
      using False
      by (auto simp: call_def spec_env_sel spec_needs_organism_def s0_def split: option.splits)
    have W0: "world s0 = after_try voc vals field feature_name using ?vo ?kw df (world s)"
      using W False by (simp add: s0_def after_register_labels_def Let_def)
    have "written (trace (snd (register_labels_try (spec_env voc) vals field feature_name using
             ?vo ?kw df (verbosity s0) s0))) = written (trace s0)"
    proof (rule written_try_settled [OF _ assms(2)])
      assume "non_validated (inspect_in (local_records (world s0)) vals field) \<noteq> []"
        and "using = None \<or> using = Some ''default''
               \<or> map_of (instances (world s0)) (the using) \<noteq> None"
      then show "settled voc vals field using ?vo ?kw df (world s0)"
        unfolding W0 by (intro after_try_quiet assms(1)) simp_all
    qed
    moreover have "trace (snd (register_labels (spec_env voc) vals field feature_name using
                            validated_only kwargs df s1))
        = trace (snd (register_labels_try (spec_env voc) vals field feature_name using
             (has_public (spec_env voc) (model field) \<and> validated_only) ?kw df
             (verbosity s0) s0))"
      by (simp add: trace_register_labels c Let_def)
    ultimately show ?thesis
      unfolding s1_def [symmetric]
      by (simp add: spec_env_sel(1) s0_def written_append)
  qed
qed


subsection \<open>The entry point\<close>

text \<open>
  C2 (as the specification states it, refuted). The claim is that \<open>register_labels\<close> returns
  the resolution partition together with the identity of a created parent label. At the
  example values with the registry \<open>ULabel\<close> the call reports a partition to the logger and
  creates the parent \<open>is_tissue\<close>, and returns \<open>None\<close>.
\<close>

theorem returns_report_counterexample:
  "fst (register_labels (spec_env ex_vocab) ex_values (ex_field ULabel) ''tissue''
         (Some ''remote'') True None None (ex_state ULabel)) = Inr None
   \<and> logged (snd (register_labels (spec_env ex_vocab) ex_values (ex_field ULabel) ''tissue''
         (Some ''remote'') True None None (ex_state ULabel)))
       = [LogSuccess ''labels'' [] ''ULabel.name'' [''unknowntissue''],
          LogSuccess ''labels'' ''from remote '' ''ULabel.name'' [''heart'']]
   \<and> SaveParent (named ULabel ''is_tissue'')
       \<in> set (trace (snd (register_labels (spec_env ex_vocab) ex_values (ex_field ULabel)
             ''tissue'' (Some ''remote'') True None None (ex_state ULabel))))"
  by code_simp

text \<open>
  C2 (amended). Whatever its arguments and whatever the collaborators do, a call of
  \<open>register_labels\<close> that does not raise returns \<open>None\<close>: neither the partition nor a parent
  label is returned.
\<close>

theorem returns_none:
  assumes "fst (register_labels env values field feature_name using validated_only kwargs df s)
             = Inr r"
  shows "r = None"
  using assms
  by (auto simp: register_labels_def bindE_def returnE_def Let_def log_registered_labels_def
        split: prod.splits sum.splits option.splits)

theorem returns_none_witness:
  "fst (register_labels (spec_env ex_vocab) ex_values (ex_field (Other ''Tissue'')) ''tissue''
         (Some ''remote'') True None None (ex_state (Other ''Tissue''))) = Inr None"
proof -
  have e: "fst (register_labels (spec_env ex_vocab) ex_values (ex_field (Other ''Tissue''))
         ''tissue'' (Some ''remote'') True None None (ex_state (Other ''Tissue''))) = Inr None"
    by code_simp
  show ?thesis using returns_none [OF e] e by simp
qed

subsection \<open>Nothing to register\<close>

text \<open>
  C4. When the organism check passes and the inspection of the current instance reports no
  non-validated value (\<open>kw\<close> is \<open>kwargs\<close>, or the empty dictionary when \<open>kwargs\<close> is \<open>None\<close>),
  \<open>register_labels\<close> returns \<open>None\<close> in the state the inspection left: the
  only collaborator calls are the organism check and that inspection (no using instance, no
  \<open>from_values\<close>, no record constructed or saved, no parent label), nothing is logged and the
  verbosity is what it was.
\<close>

theorem fully_validated_is_noop:
  assumes "kw = (case kwargs of None \<Rightarrow> [] | Some k \<Rightarrow> k)"
    and "check_if_registry_needs_organism env (model field) (map_of kw ''organism'') (world s)
           = (Inr b, w1)"
    and "registry_inspect env None values field kw w1 = (Inr res, w2)"
    and "non_validated res = []"
  shows "register_labels env values field feature_name using validated_only kwargs df s
           = (Inr None,
              s\<lparr>world := w2,
                trace := trace s @ [NeedsOrganism (model field) (map_of kw ''organism''),
                                    InspectCurrent values]\<rparr>)"
  using assms
  by (simp add: register_labels_def register_labels_try_def bindE_def try_finally_def
        returnE_def call_def set_verbosity_def Let_def)

theorem fully_validated_is_noop_witness:
  "register_labels (spec_env ex_vocab) [''liver'', ''liver''] (ex_field ULabel) ''tissue''
      (Some ''remote'') False None None (ex_state ULabel)
   = (Inr None,
      \<lparr>verbosity = ''warning'', world = ex_store ULabel,
       trace = [NeedsOrganism ULabel None, InspectCurrent [''liver'', ''liver'']],
       logged = []\<rparr>)"
proof -
  have 0: "[] = (case None :: kwargs option of None \<Rightarrow> [] | Some k \<Rightarrow> k)"
    by simp
  have 1: "check_if_registry_needs_organism (spec_env ex_vocab) (model (ex_field ULabel))
             (map_of [] ''organism'') (world (ex_state ULabel)) = (Inr False, ex_store ULabel)"
    by (simp add: spec_env_def spec_needs_organism_def ex_vocab_def ex_state_def)
  have 2: "registry_inspect (spec_env ex_vocab) None [''liver'', ''liver''] (ex_field ULabel) []
             (ex_store ULabel)
           = (Inr \<lparr>validated = [''liver''], non_validated = []\<rparr>, ex_store ULabel)"
    by (simp add: spec_env_def spec_inspect_def inspect_in_def lookup_def attr_def ex_store_def
          ex_field_def named_def)
  show ?thesis
    using fully_validated_is_noop [OF 0 1 2, of "''tissue''" "Some ''remote''" False None]
    by (simp add: ex_state_def ex_field_def)
qed

subsection \<open>Verbosity\<close>

text \<open>
  C5. For every starting state, every argument list and every behaviour of the
  collaborators, the verbosity after a call of \<open>register_labels\<close> is the verbosity before
  it, whether the call returns or raises: an exception of the organism check is raised
  before the verbosity is touched, and the \<open>finally\<close> clause restores it after the \<open>try\<close>
  block however that block ends.
\<close>

theorem verbosity_restored:
  "verbosity (snd (register_labels env values field feature_name using validated_only kwargs df s))
     = verbosity s"
  by (auto simp: register_labels_def bindE_def try_finally_def returnE_def Let_def
        log_registered_labels_def
      dest: call_verbosity
      split: prod.splits sum.splits option.splits)

text \<open>The same at a call that raises: the using instance \<open>nowhere\<close> does not exist.\<close>

theorem verbosity_restored_witness:
  "verbosity (snd (register_labels (spec_env ex_vocab) ex_values (ex_field ULabel) ''tissue''
      (Some ''nowhere'') True None None (ex_state ULabel))) = ''warning''
   \<and> fst (register_labels (spec_env ex_vocab) ex_values (ex_field ULabel) ''tissue''
      (Some ''nowhere'') True None None (ex_state ULabel)) = Inl (UnknownInstance ''nowhere'')"
proof -
  have "fst (register_labels (spec_env ex_vocab) ex_values (ex_field ULabel) ''tissue''
      (Some ''nowhere'') True None None (ex_state ULabel)) = Inl (UnknownInstance ''nowhere'')"
    by code_simp
  then show ?thesis
    using verbosity_restored [of "spec_env ex_vocab" ex_values "ex_field ULabel" "''tissue''"
        "Some ''nowhere''" True None None "ex_state ULabel"]
    by (simp add: ex_state_def)
qed

subsection \<open>The using instance\<close>

text \<open>
  C6. When \<open>using\<close> is \<open>None\<close> or the sentinel \<open>default\<close>, \<open>register_labels_from_using_instance\<close>
  returns \<open>([], values)\<close> and leaves the state as it was: no collaborator is called, so no
  registry instance is accessed.
\<close>

theorem using_absent_is_noop:
  assumes "using = None \<or> using = Some ''default''"
  shows "register_labels_from_using_instance env values field using kwargs s
           = (Inr ([], values), s)"
  using assms by (auto simp: register_labels_from_using_instance_def returnE_def Let_def)

theorem using_absent_is_noop_witness:
  "register_labels_from_using_instance (spec_env ex_vocab) [''heart'', ''unknowntissue'']
     (ex_field ULabel) (Some ''default'') None (ex_state ULabel)
   = (Inr ([], [''heart'', ''unknowntissue'']), ex_state ULabel)"
  using using_absent_is_noop [of "Some ''default''" "spec_env ex_vocab"
      "[''heart'', ''unknowntissue'']" "ex_field ULabel" None "ex_state ULabel"]
  by simp

text \<open>
  C8 (the code at a failing input). A value that the using instance validates is copied
  from it and belongs under the key \<open>f"from {using}"\<close>. When the using instance is named
  \<open>public\<close> that key is \<open>from public\<close>, the key of the public bucket, and line 128 overwrites
  what line 112 stored: \<open>heart\<close>, validated by the instance \<open>public\<close> and saved into the
  local registry, is in no bucket of the final partition.
\<close>

theorem using_public_bucket_lost:
  "fst (registry_inspect (spec_env ex_vocab) (Some ''public'') [''heart'', ''unknowntissue'']
          (ex_field (Other ''Tissue'')) [] (world (ex_state (Other ''Tissue''))))
     = Inr \<lparr>validated = [''heart''], non_validated = [''unknowntissue'']\<rparr>
   \<and> fst (register_labels_try (spec_env ex_vocab) ex_values (ex_field (Other ''Tissue''))
          ''tissue'' (Some ''public'') True [] None ''warning'' (ex_state (Other ''Tissue'')))
     = Inr (Some [(''from public'', []), (''without reference'', [''unknowntissue''])])
   \<and> local_records (world (snd (register_labels_try (spec_env ex_vocab) ex_values
          (ex_field (Other ''Tissue'')) ''tissue'' (Some ''public'') True [] None ''warning''
          (ex_state (Other ''Tissue'')))))
     = [named (Other ''Tissue'') ''liver'', named (Other ''Tissue'') ''heart'']"
  by code_simp

text \<open>For a using instance of any other name the precedence holds: a value that the
  inspection of the using instance validates is in the bucket \<open>from <using>\<close> of the final
  dictionary and in neither of the other two, whatever the public reference constructs.\<close>

lemma using_takes_precedence:
  assumes "inspect_partitions env" and "filter_finds_validated env"
    and "from_values_within env"
    and u: "using = Some u" "u \<noteq> ''default''" "u \<noteq> ''public''"
    and "registry_inspect env None vals field kwargs (world s) = (Inr current, w1)"
    and "registry_using env (model field) u w1 = (Inr (), w2)"
    and "registry_inspect env (Some u) (non_validated current) field kwargs w2 = (Inr res, w3)"
    and v: "v \<in> set (validated res)"
    and "register_labels_try env vals field feature_name using validated_only kwargs df
           verbosity0 s = (Inr (Some lr), s')"
  shows "v \<in> set (dict_get lr (from_key using))
       \<and> v \<notin> set (dict_get lr ''from public'')
       \<and> v \<notin> set (dict_get lr ''without reference'')"
  using assms(11)
proof (cases rule: register_labels_try_SomeE)
  case (1 current' s1 from_using nvl s2 recs s3 s4 lr3 s5)
  let ?P = "map (\<lambda>r. getattr env r (fname field)) recs"
  let ?W = "[i \<leftarrow> nvl. i \<notin> set ?P]"
  have c: "current' = current" "world s1 = w1"
    using callD(1) [OF 1(1)] assms(7) by simp_all
  from 1(3) have funvl: "v \<in> set from_using \<and> v \<notin> set nvl"
  proof (cases rule: from_using_InrE)
    case absent
    then show ?thesis using u by simp
  next
    case (present u' res' sa sb recs' sc)
    have u': "u' = u" using present(1) u(1) by simp
    have "registry_using env (model field) u (world s1) = (Inr (), world sa)"
      using callD(1) [OF present(3)] u' by simp
    then have wa: "world sa = w2" using assms(8) c by simp
    have "registry_inspect env (Some u) (non_validated current) field kwargs (world sa)
            = (Inr res', world sb)"
      using callD(1) [OF present(4)] u' c by simp
    then have r: "res' = res" and i: "registry_inspect env (Some u) (non_validated current)
        field kwargs (world sa) = (Inr res, world sb)"
      using assms(9) wa by simp_all
    have f: "registry_filter_in env u field (validated res) (world sb) = (Inr recs', world sc)"
      using callD(1) [OF present(5)] u' r by simp
    have "set (map (\<lambda>r. getattr env r (fname field)) recs') = set (validated res)"
      using assms(2) i f unfolding filter_finds_validated_def by blast
    moreover have "from_using = map (\<lambda>r. getattr env r (fname field)) recs'"
      using save_labels_using_result [OF present(6)] by simp
    moreover have "set (validated res) \<inter> set (non_validated res) = {}"
      using assms(1) i unfolding inspect_partitions_def by blast
    ultimately show ?thesis
      using v present(7) r by auto
  qed
  then have fu: "v \<in> set from_using" and nvl: "v \<notin> set nvl" by simp_all
  have P: "set ?P \<subseteq> set nvl"
  proof (cases "length nvl > 0")
    case True
    then have "registry_from_values env nvl field kwargs (world s2) = (Inr recs, world s3)"
      using 1(4) callD(1) by fastforce
    then show ?thesis using assms(3) unfolding from_values_within_def by blast
  next
    case False
    then show ?thesis using 1(4) by (simp add: returnE_def)
  qed
  have k: "from_key using \<noteq> ''from public''" "from_key using \<noteq> ''without reference''"
    using u by (simp_all add: from_key_public from_key_neq)
  have g3: "dict_get lr3 (from_key using) = from_using" "dict_get lr3 ''from public'' = ?P"
      "dict_get lr3 ''without reference'' = ?W"
    using k by (simp_all add: 1(6) dict_get_set dict_get_def)
  show ?thesis
  proof (cases "validated_only")
    case True
    then have "lr = lr3" using 1(7) by (simp add: returnE_def)
    then show ?thesis using g3 fu nvl P by auto
  next
    case False
    then have "register_non_validated env field using kwargs df lr3 s4 = (Inr lr, s5)"
      using 1(7) by simp
    then show ?thesis
    proof (cases rule: register_non_validated_InrE)
      case (dataframe d recs' s1')
      have "dict_get lr (from_key using) = from_using" "dict_get lr ''from public'' = ?P"
        "dict_get lr ''without reference''
           = [col \<leftarrow> df_columns env d. col \<notin> set ?P \<and> col \<notin> set from_using]"
        using k g3 by (simp_all add: dataframe(4) dict_get_set)
      then show ?thesis using fu nvl P by auto
    next
      case (generic recs' s1')
      then show ?thesis using g3 fu nvl P by auto
    qed
  qed
qed

subsection \<open>The partition\<close>

text \<open>
  C1 (as the specification states it, refuted). The claim includes the call with a source
  dataframe on the feature registry. There lines 137 to 142 recompute the bucket
  \<open>without reference\<close> from the columns of the dataframe: with the columns \<open>age\<close> and \<open>sex\<close>
  as values and \<open>age\<close> validated locally, the local non-validated subset is \<open>sex\<close> alone and
  the bucket holds \<open>age\<close> and \<open>sex\<close>.
\<close>

theorem partition_dataframe_counterexample:
  "fst (registry_inspect (spec_env ex_vocab) None [''age'', ''sex'']
          \<lparr>model = Feature, fname = ''name''\<rparr> [] (world df_state))
     = Inr \<lparr>validated = [''age''], non_validated = [''sex'']\<rparr>
   \<and> fst (register_labels_try (spec_env ex_vocab) [''age'', ''sex'']
          \<lparr>model = Feature, fname = ''name''\<rparr> ''feature'' None False []
          (Some [''age'', ''sex'']) ''warning'' df_state)
     = Inr (Some [(''from public'', []), (''without reference'', [''age'', ''sex'']),
                  (''from None'', [])])
   \<and> \<not> set [''age'', ''sex''] \<subseteq> set [''sex'']"
  by code_simp

text \<open>
  C1 (amended). Let the inspections partition their values, the filter on the using
  instance find the records of the values that instance validated, and \<open>from_values\<close>
  return records of values it was given; let the using instance not be named \<open>public\<close>.
  When the \<open>try\<close> block of \<open>register_labels\<close> ends with the dictionary \<open>labels_registered\<close>
  (the one handed to \<open>log_registered_labels\<close>), its three buckets are pairwise disjoint,
  and \<open>from <using>\<close> and \<open>from public\<close> are subsets of the local non-validated values. Unless
  the dataframe path of lines 135 to 142 is taken, the union of the three buckets is exactly
  the set of the local non-validated values; on that path \<open>without reference\<close> is the set of
  the dataframe's columns that are in neither of the other two buckets.
\<close>

theorem partition_of_non_validated:
  assumes "inspect_partitions env" and "filter_finds_validated env"
    and "from_values_within env"
    and "using \<noteq> Some ''public''"
    and "registry_inspect env None values field kwargs (world s) = (Inr current, w1)"
    and "register_labels_try env values field feature_name using validated_only kwargs df
           verbosity0 s = (Inr (Some lr), s')"
  shows "set (dict_get lr (from_key using)) \<inter> set (dict_get lr ''from public'') = {}
       \<and> set (dict_get lr (from_key using)) \<inter> set (dict_get lr ''without reference'') = {}
       \<and> set (dict_get lr ''from public'') \<inter> set (dict_get lr ''without reference'') = {}
       \<and> set (dict_get lr (from_key using)) \<subseteq> set (non_validated current)
       \<and> set (dict_get lr ''from public'') \<subseteq> set (non_validated current)
       \<and> (if \<not> validated_only \<and> df \<noteq> None \<and> model field = Feature
          then set (dict_get lr ''without reference'')
                 = set (df_columns env (the df)) - set (dict_get lr ''from public'')
                     - set (dict_get lr (from_key using))
          else set (dict_get lr (from_key using)) \<union> set (dict_get lr ''from public'')
                 \<union> set (dict_get lr ''without reference'') = set (non_validated current))"
  using assms(6)
proof (cases rule: register_labels_try_SomeE)
  case (1 current' s1 from_using nvl s2 recs s3 s4 lr3 s5)
  let ?P = "map (\<lambda>r. getattr env r (fname field)) recs"
  let ?W = "[i \<leftarrow> nvl. i \<notin> set ?P]"
  have "current' = current"
    using callD(1) [OF 1(1)] assms(5) by simp
  then have u: "set from_using \<union> set nvl = set (non_validated current)"
      "set from_using \<inter> set nvl = {}"
    using from_using_partition [OF assms(1,2) 1(3)] by simp_all
  have P: "set ?P \<subseteq> set nvl"
  proof (cases "length nvl > 0")
    case True
    then have "registry_from_values env nvl field kwargs (world s2) = (Inr recs, world s3)"
      using 1(4) callD(1) by fastforce
    then show ?thesis using assms(3) unfolding from_values_within_def by blast
  next
    case False
    then show ?thesis using 1(4) by (simp add: returnE_def)
  qed
  have k: "from_key using \<noteq> ''from public''" "from_key using \<noteq> ''without reference''"
    using assms(4) by (simp_all add: from_key_public from_key_neq)
  have g3: "dict_get lr3 (from_key using) = from_using" "dict_get lr3 ''from public'' = ?P"
      "dict_get lr3 ''without reference'' = ?W"
    using k by (simp_all add: 1(6) dict_get_set dict_get_def)
  show ?thesis
  proof (cases "validated_only")
    case True
    then have "lr = lr3" using 1(7) by (simp add: returnE_def)
    then show ?thesis using g3 u P True by auto
  next
    case False
    then have "register_non_validated env field using kwargs df lr3 s4 = (Inr lr, s5)"
      using 1(7) by simp
    then show ?thesis
    proof (cases rule: register_non_validated_InrE)
      case (dataframe d recs' s1')
      have "dict_get lr (from_key using) = from_using" "dict_get lr ''from public'' = ?P"
        "dict_get lr ''without reference''
           = [col \<leftarrow> df_columns env d. col \<notin> set ?P \<and> col \<notin> set from_using]"
        using k g3 by (simp_all add: dataframe(4) dict_get_set)
      then show ?thesis using u P False dataframe(1,2) by auto
    next
      case (generic recs' s1')
      then show ?thesis using g3 u P False by auto
    qed
  qed
qed

theorem partition_of_non_validated_witness:
  "inspect_partitions (spec_env ex_vocab) \<and> filter_finds_validated (spec_env ex_vocab)
   \<and> from_values_within (spec_env ex_vocab)
   \<and> fst (registry_inspect (spec_env ex_vocab) None ex_values (ex_field (Other ''Tissue'')) []
        (world (ex_state (Other ''Tissue''))))
      = Inr \<lparr>validated = [''liver''], non_validated = [''heart'', ''unknowntissue'']\<rparr>
   \<and> fst (register_labels_try (spec_env ex_vocab) ex_values (ex_field (Other ''Tissue''))
        ''tissue'' (Some ''remote'') True [] None ''warning'' (ex_state (Other ''Tissue'')))
      = Inr (Some [(''from public'', []), (''without reference'', [''unknowntissue'']),
                   (''from remote'', [''heart''])])
   \<and> set [''heart''] \<union> set [] \<union> set [''unknowntissue''] = set [''heart'', ''unknowntissue'']"
proof -
  let ?env = "spec_env ex_vocab"
  let ?f = "ex_field (Other ''Tissue'')"
  let ?s = "ex_state (Other ''Tissue'')"
  let ?lr = "[(''from public'', []), (''without reference'', [''unknowntissue'']),
              (''from remote'', [''heart''])]"
  have i: "fst (registry_inspect ?env None ex_values ?f [] (world ?s))
        = Inr \<lparr>validated = [''liver''], non_validated = [''heart'', ''unknowntissue'']\<rparr>"
    by code_simp
  have r: "fst (register_labels_try ?env ex_values ?f ''tissue'' (Some ''remote'') True [] None
             ''warning'' ?s) = Inr (Some ?lr)"
    by code_simp
  obtain w1 where i': "registry_inspect ?env None ex_values ?f [] (world ?s)
        = (Inr \<lparr>validated = [''liver''], non_validated = [''heart'', ''unknowntissue'']\<rparr>, w1)"
    using i by (metis prod.collapse)
  obtain s' where r': "register_labels_try ?env ex_values ?f ''tissue'' (Some ''remote'') True []
             None ''warning'' ?s = (Inr (Some ?lr), s')"
    using r by (metis prod.collapse)
  have "Some ''remote'' \<noteq> Some ''public''" by simp
  from partition_of_non_validated [OF spec_inspect_partitions spec_filter_finds_validated
      spec_from_values_within this i' r']
  have "set (dict_get ?lr (from_key (Some ''remote''))) \<union> set (dict_get ?lr ''from public'')
          \<union> set (dict_get ?lr ''without reference'') = set [''heart'', ''unknowntissue'']"
    by simp
  then have "set [''heart''] \<union> set [] \<union> set [''unknowntissue'']
               = set [''heart'', ''unknowntissue'']"
    by (simp add: dict_get_def from_key_def)
  then show ?thesis
    using i r spec_inspect_partitions spec_filter_finds_validated spec_from_values_within
    by blast
qed

subsection \<open>Placeholders\<close>

text \<open>
  C3 (as the specification states it, refuted). With \<open>validated_only=True\<close> passed and the
  registry \<open>ULabel\<close>, which has no public reference in the example, the call constructs
  a record for \<open>unknowntissue\<close> and saves it into the local registry.
\<close>

theorem validated_only_counterexample:
  "NewPlaceholder [(''name'', ''unknowntissue'')]
     \<in> set (trace (snd (register_labels (spec_env ex_vocab) ex_values (ex_field ULabel)
           ''tissue'' (Some ''remote'') True None None (ex_state ULabel))))
   \<and> named ULabel ''unknowntissue''
     \<in> set (local_records (world (snd (register_labels (spec_env ex_vocab) ex_values
           (ex_field ULabel) ''tissue'' (Some ''remote'') True None None (ex_state ULabel)))))"
  by code_simp

text \<open>
  C3 (amended). When the registry model has the attribute \<open>public\<close> and the caller passes
  \<open>validated_only=True\<close>, a call of \<open>register_labels\<close> makes no call of the placeholder stage,
  whatever the collaborators do and however the call ends: no \<open>Feature.from_df\<close>, no record
  constructed at line 151, no \<open>ln.save\<close> at line 152.
\<close>

theorem validated_only_creates_no_placeholder:
  assumes "has_public env (model field)"
  shows "filter placeholder_event
           (trace (snd (register_labels env values field feature_name using True kwargs df s)))
         = filter placeholder_event (trace s)"
proof -
  let ?obs = "\<lambda>s :: ('a, 'b, 'c) proc_state. filter placeholder_event (trace s)"
  have "stable ?obs
          (\<lambda>s. bindE (try_finally
                     (register_labels_try env values field feature_name using True kw df
                        (verbosity s))
                     (\<lambda>s'. s'\<lparr>verbosity := verbosity s\<rparr>))
              (\<lambda>labels_registered.
                 case labels_registered of
                   None \<Rightarrow> returnE None
                 | Some labels_registered \<Rightarrow>
                     bindE (log_registered_labels labels_registered feature_name mf True)
                       (\<lambda>_. returnE None)) s)" for kw mf
    by (rule stable_read [where g = verbosity])
       (intro stable_bindE stable_try_finally stable_try_validated_only stable_case_option
          stable_returnE stable_log, simp_all)
  then have "stable ?obs (register_labels env values field feature_name using True kwargs df)"
    unfolding register_labels_def Let_def
    using assms
    by (auto intro!: stable_bindE stable_call)
  then show ?thesis by (simp add: stable_def)
qed

text \<open>The example of the specification: \<open>liver\<close> is validated locally, \<open>heart\<close> is copied from
  the instance \<open>remote\<close>, \<open>unknowntissue\<close> is reported in a warning and not stored.\<close>

theorem validated_only_creates_no_placeholder_witness:
  "has_public (spec_env ex_vocab) (model (ex_field (Other ''Tissue'')))
   \<and> register_labels (spec_env ex_vocab) ex_values (ex_field (Other ''Tissue'')) ''tissue''
       (Some ''remote'') True None None (ex_state (Other ''Tissue''))
     = (Inr None,
        \<lparr>verbosity = ''warning'',
         world = (ex_store (Other ''Tissue''))
           \<lparr>local_records :=
              [named (Other ''Tissue'') ''liver'', named (Other ''Tissue'') ''heart'']\<rparr>,
         trace =
           [NeedsOrganism (Other ''Tissue'') None, InspectCurrent ex_values,
            RegistryUsing (Other ''Tissue'') ''remote'',
            InspectUsing ''remote'' [''heart'', ''unknowntissue''],
            FilterUsing ''remote'' [''heart''],
            SaveFromUsing (named (Other ''Tissue'') ''heart''),
            FromValues [''unknowntissue''], SavePublic []],
         logged =
           [LogWarning ''labels'' ''Tissue.name'' ''tissue'' [''unknowntissue''],
            LogSuccess ''labels'' ''from remote '' ''Tissue.name'' [''heart'']]\<rparr>)
   \<and> filter placeholder_event
         (trace (snd (register_labels (spec_env ex_vocab) ex_values (ex_field (Other ''Tissue''))
            ''tissue'' (Some ''remote'') True None None (ex_state (Other ''Tissue''))))) = []"
proof -
  have p: "has_public (spec_env ex_vocab) (model (ex_field (Other ''Tissue'')))"
    by (simp add: spec_env_def ex_vocab_def ex_field_def)
  have r: "register_labels (spec_env ex_vocab) ex_values (ex_field (Other ''Tissue'')) ''tissue''
       (Some ''remote'') True None None (ex_state (Other ''Tissue''))
     = (Inr None,
        \<lparr>verbosity = ''warning'',
         world = (ex_store (Other ''Tissue''))
           \<lparr>local_records :=
              [named (Other ''Tissue'') ''liver'', named (Other ''Tissue'') ''heart'']\<rparr>,
         trace =
           [NeedsOrganism (Other ''Tissue'') None, InspectCurrent ex_values,
            RegistryUsing (Other ''Tissue'') ''remote'',
            InspectUsing ''remote'' [''heart'', ''unknowntissue''],
            FilterUsing ''remote'' [''heart''],
            SaveFromUsing (named (Other ''Tissue'') ''heart''),
            FromValues [''unknowntissue''], SavePublic []],
         logged =
           [LogWarning ''labels'' ''Tissue.name'' ''tissue'' [''unknowntissue''],
            LogSuccess ''labels'' ''from remote '' ''Tissue.name'' [''heart'']]\<rparr>)"
    by code_simp
  have "filter placeholder_event
         (trace (snd (register_labels (spec_env ex_vocab) ex_values (ex_field (Other ''Tissue''))
            ''tissue'' (Some ''remote'') True None None (ex_state (Other ''Tissue''))))) = []"
    using validated_only_creates_no_placeholder [OF p, of ex_values "''tissue''"
        "Some ''remote''" None None "ex_state (Other ''Tissue'')"]
    by (simp add: ex_state_def)
  with p r show ?thesis by blast
qed



subsection \<open>The parent label\<close>

text \<open>
  C7. On the registry backend, let \<open>register_ulabels_with_parent\<close> be called any number of
  times for one feature name, each call with values of its own, on the state the call before
  left. Over all the calls at most one parent record is saved at line 207, the record named
  \<open>is_<feature_name>\<close>; and one and the same record is the parent in every call of
  \<open>children.add\<close>: the one a call created, or the one that was stored before the first call.
\<close>

theorem at_most_one_parent:
  "\<exists>created linked p.
     parents_saved (trace (register_ulabels_with_parent_calls (spec_env voc) vss field
       feature_name s)) = parents_saved (trace s) @ created
   \<and> parents_linked (trace (register_ulabels_with_parent_calls (spec_env voc) vss field
       feature_name s)) = parents_linked (trace s) @ linked
   \<and> length created \<le> 1
   \<and> set created \<subseteq> {p} \<and> set linked \<subseteq> {p}
   \<and> set created \<subseteq> {\<lparr>rmodel = ULabel, rattrs = [(''name'', ''is_'' @ feature_name)]\<rparr>}"
proof (cases "model field = ULabel")
  case False
  then show ?thesis by (simp add: calls_assert)
next
  case True
  show ?thesis
  proof (cases "lookup ULabel ''name'' (''is_'' @ feature_name) (local_records (world s))")
    case Nil
    from calls_none [OF True Nil, of voc vss] show ?thesis
      unfolding parent_of_def by blast
  next
    case (Cons q qs)
    show ?thesis
    proof (cases qs)
      case Nil
      with Cons calls_one [OF True, of feature_name s q voc vss] obtain linked where
        "parents_saved (trace (register_ulabels_with_parent_calls (spec_env voc) vss field
           feature_name s)) = parents_saved (trace s)"
        "parents_linked (trace (register_ulabels_with_parent_calls (spec_env voc) vss field
           feature_name s)) = parents_linked (trace s) @ linked"
        "set linked \<subseteq> {q}"
        by blast
      then show ?thesis
        by (intro exI [of _ "[]"] exI [of _ linked] exI [of _ q]) simp
    next
      case (Cons b c)
      with \<open>lookup ULabel ''name'' (''is_'' @ feature_name) (local_records (world s)) = q # qs\<close>
        calls_many [OF True, of feature_name s q b c voc vss]
      show ?thesis by (intro exI [of _ "[]"]) simp
    qed
  qed
qed

theorem at_most_one_parent_witness:
  "parents_saved (trace (register_ulabels_with_parent_calls (spec_env ex_vocab)
      [[''liver''], [''liver'', ''heart''], []] (ex_field ULabel) ''tissue'' (ex_state ULabel)))
     = [named ULabel ''is_tissue'']
   \<and> parents_linked (trace (register_ulabels_with_parent_calls (spec_env ex_vocab)
      [[''liver''], [''liver'', ''heart''], []] (ex_field ULabel) ''tissue'' (ex_state ULabel)))
     = [named ULabel ''is_tissue'', named ULabel ''is_tissue'', named ULabel ''is_tissue'']
   \<and> (\<exists>created linked p.
        parents_saved (trace (register_ulabels_with_parent_calls (spec_env ex_vocab)
          [[''liver''], [''liver'', ''heart''], []] (ex_field ULabel) ''tissue''
          (ex_state ULabel))) = parents_saved (trace (ex_state ULabel)) @ created
      \<and> parents_linked (trace (register_ulabels_with_parent_calls (spec_env ex_vocab)
          [[''liver''], [''liver'', ''heart''], []] (ex_field ULabel) ''tissue''
          (ex_state ULabel))) = parents_linked (trace (ex_state ULabel)) @ linked
      \<and> length created \<le> 1
      \<and> set created \<subseteq> {p} \<and> set linked \<subseteq> {p}
      \<and> set created \<subseteq> {\<lparr>rmodel = ULabel, rattrs = [(''name'', ''is_'' @ ''tissue'')]\<rparr>})"
proof -
  have e: "parents_saved (trace (register_ulabels_with_parent_calls (spec_env ex_vocab)
      [[''liver''], [''liver'', ''heart''], []] (ex_field ULabel) ''tissue'' (ex_state ULabel)))
     = [named ULabel ''is_tissue'']
   \<and> parents_linked (trace (register_ulabels_with_parent_calls (spec_env ex_vocab)
      [[''liver''], [''liver'', ''heart''], []] (ex_field ULabel) ''tissue'' (ex_state ULabel)))
     = [named ULabel ''is_tissue'', named ULabel ''is_tissue'', named ULabel ''is_tissue'']"
    by code_simp
  show ?thesis
    using e at_most_one_parent [of ex_vocab "[[''liver''], [''liver'', ''heart''], []]"
        "ex_field ULabel" "''tissue''" "ex_state ULabel"]
    by blast
qed


subsection \<open>Calling twice\<close>

text \<open>
  C9 (as the specification states it, refuted). A second call with the same arguments, on the
  state the first call left, can hand records to \<open>ln.save\<close> again. With the dataframe of
  columns \<open>age\<close> and \<open>sex\<close> and the values \<open>age\<close>, \<open>sex\<close> and \<open>height\<close>, the value \<open>height\<close> is
  still non-validated after the first call, so the second call runs the stages again and
  line 152 saves the features \<open>age\<close> and \<open>sex\<close> a second time. And the public stage is not
  skipped entirely when no value reaches it: with \<open>liver\<close> validated locally and \<open>heart\<close>
  copied from the instance \<open>remote\<close>, \<open>from_values\<close> is not called, but \<open>ln.save\<close> of line 127
  is, with the empty list.
\<close>

theorem reconciliation_idempotent_counterexample:
  "trace (snd (register_labels (spec_env ex_vocab) [''age'', ''sex'', ''height'']
        \<lparr>model = Feature, fname = ''name''\<rparr> ''feature'' None False None
        (Some [''age'', ''sex'']) df_state))
     = [NeedsOrganism Feature None, InspectCurrent [''age'', ''sex'', ''height''],
        FromValues [''sex'', ''height''], SavePublic [], FeatureFromDf [''age'', ''sex''],
        SavePlaceholders [named Feature ''age'', named Feature ''sex'']]
   \<and> trace (snd (register_labels (spec_env ex_vocab) [''age'', ''sex'', ''height'']
        \<lparr>model = Feature, fname = ''name''\<rparr> ''feature'' None False None
        (Some [''age'', ''sex''])
        (snd (register_labels (spec_env ex_vocab) [''age'', ''sex'', ''height'']
           \<lparr>model = Feature, fname = ''name''\<rparr> ''feature'' None False None
           (Some [''age'', ''sex'']) df_state))))
     = [NeedsOrganism Feature None, InspectCurrent [''age'', ''sex'', ''height''],
        FromValues [''sex'', ''height''], SavePublic [], FeatureFromDf [''age'', ''sex''],
        SavePlaceholders [named Feature ''age'', named Feature ''sex''],
        NeedsOrganism Feature None, InspectCurrent [''age'', ''sex'', ''height''],
        FromValues [''height''], SavePublic [], FeatureFromDf [''age'', ''sex''],
        SavePlaceholders [named Feature ''age'', named Feature ''sex'']]
   \<and> trace (snd (register_labels (spec_env ex_vocab) [''liver'', ''heart'']
        (ex_field (Other ''Tissue'')) ''tissue'' (Some ''remote'') True None None
        (ex_state (Other ''Tissue''))))
     = [NeedsOrganism (Other ''Tissue'') None, InspectCurrent [''liver'', ''heart''],
        RegistryUsing (Other ''Tissue'') ''remote'', InspectUsing ''remote'' [''heart''],
        FilterUsing ''remote'' [''heart''], SaveFromUsing (named (Other ''Tissue'') ''heart''),
        SavePublic []]"
  by code_simp

text \<open>
  C9 (amended). On the registry backend, where the label registry \<open>ULabel\<close> has no public
  reference, take a second call of \<open>register_labels\<close> with the same arguments, on the state
  the first call left.
  \<^item> It leaves the registries as the first call left them: whatever it saves again is stored
    already.
  \<^item> Off the dataframe path (and when placeholders of the feature registry are not looked up
    by their \<open>type\<close>), it hands no record to any persisting call: no \<open>record.save\<close>, no child
    for \<open>children.add\<close>, and \<open>ln.save\<close> only with the empty list.
  \<^item> Whatever the collaborators are, \<open>from_values\<close> is never called at line 123 with an empty
    list of values: when no value reaches the public stage, the construction is not invoked.
\<close>

theorem reconciliation_idempotent:
  assumes "\<not> with_public voc ULabel"
  shows "world (snd (register_labels (spec_env voc) vals field feature_name using validated_only
                  kwargs df
                  (snd (register_labels (spec_env voc) vals field feature_name using
                          validated_only kwargs df s))))
         = world (snd (register_labels (spec_env voc) vals field feature_name using
                          validated_only kwargs df s))
       \<and> ((model field = Feature \<longrightarrow> df = None \<and> fname field \<noteq> ''type'') \<longrightarrow>
            written (trace (snd (register_labels (spec_env voc) vals field feature_name using
                      validated_only kwargs df
                      (snd (register_labels (spec_env voc) vals field feature_name using
                              validated_only kwargs df s)))))
            = written (trace (snd (register_labels (spec_env voc) vals field feature_name using
                              validated_only kwargs df s))))
       \<and> (FromValues [] \<in> set (trace (snd (register_labels env vals field feature_name using
                                           validated_only kwargs df' s')))
            \<longleftrightarrow> FromValues [] \<in> set (trace s'))"
proof (intro conjI)
  show "world (snd (register_labels (spec_env voc) vals field feature_name using validated_only
                  kwargs df
                  (snd (register_labels (spec_env voc) vals field feature_name using
                          validated_only kwargs df s))))
         = world (snd (register_labels (spec_env voc) vals field feature_name using
                          validated_only kwargs df s))"
    using after_try_idempotent [OF assms, of "with_public voc (model field) \<and> validated_only"]
    by (simp add: world_after_register_labels after_register_labels_def Let_def)
  show "(model field = Feature \<longrightarrow> df = None \<and> fname field \<noteq> ''type'') \<longrightarrow>
            written (trace (snd (register_labels (spec_env voc) vals field feature_name using
                      validated_only kwargs df
                      (snd (register_labels (spec_env voc) vals field feature_name using
                              validated_only kwargs df s)))))
            = written (trace (snd (register_labels (spec_env voc) vals field feature_name using
                              validated_only kwargs df s)))"
    using written_second_call [OF assms] by blast
  show "FromValues [] \<in> set (trace (snd (register_labels env vals field feature_name using
                                           validated_only kwargs df' s')))
            \<longleftrightarrow> FromValues [] \<in> set (trace s')"
    using stable_register_labels_from_values
      [of env vals field feature_name "using" validated_only kwargs df']
    by (simp add: stable_def)
qed

text \<open>The example of the specification, called twice with \<open>validated_only=True\<close> on a registry
  with a public reference: \<open>unknowntissue\<close> is still non-validated, the second call runs the
  using stage and the public stage again, and the one persisting call it makes is \<open>ln.save\<close>
  of line 127 with the empty list.\<close>

theorem reconciliation_idempotent_witness:
  "\<not> with_public ex_vocab ULabel
   \<and> trace (snd (register_labels (spec_env ex_vocab) ex_values (ex_field (Other ''Tissue''))
        ''tissue'' (Some ''remote'') True None None
        (snd (register_labels (spec_env ex_vocab) ex_values (ex_field (Other ''Tissue''))
           ''tissue'' (Some ''remote'') True None None (ex_state (Other ''Tissue''))))))
     = trace (snd (register_labels (spec_env ex_vocab) ex_values (ex_field (Other ''Tissue''))
           ''tissue'' (Some ''remote'') True None None (ex_state (Other ''Tissue''))))
       @ [NeedsOrganism (Other ''Tissue'') None, InspectCurrent ex_values,
          RegistryUsing (Other ''Tissue'') ''remote'',
          InspectUsing ''remote'' [''unknowntissue''], FilterUsing ''remote'' [],
          FromValues [''unknowntissue''], SavePublic []]
   \<and> written (trace (snd (register_labels (spec_env ex_vocab) ex_values
        (ex_field (Other ''Tissue'')) ''tissue'' (Some ''remote'') True None None
        (ex_state (Other ''Tissue''))))) = [named (Other ''Tissue'') ''heart'']
   \<and> written (trace (snd (register_labels (spec_env ex_vocab) ex_values
        (ex_field (Other ''Tissue'')) ''tissue'' (Some ''remote'') True None None
        (snd (register_labels (spec_env ex_vocab) ex_values (ex_field (Other ''Tissue''))
           ''tissue'' (Some ''remote'') True None None (ex_state (Other ''Tissue'')))))))
     = written (trace (snd (register_labels (spec_env ex_vocab) ex_values
        (ex_field (Other ''Tissue'')) ''tissue'' (Some ''remote'') True None None
        (ex_state (Other ''Tissue'')))))
   \<and> world (snd (register_labels (spec_env ex_vocab) ex_values (ex_field (Other ''Tissue''))
        ''tissue'' (Some ''remote'') True None None
        (snd (register_labels (spec_env ex_vocab) ex_values (ex_field (Other ''Tissue''))
           ''tissue'' (Some ''remote'') True None None (ex_state (Other ''Tissue''))))))
     = world (snd (register_labels (spec_env ex_vocab) ex_values (ex_field (Other ''Tissue''))
           ''tissue'' (Some ''remote'') True None None (ex_state (Other ''Tissue''))))
   \<and> FromValues [] \<notin> set (trace (snd (register_labels (spec_env ex_vocab) ex_values
        (ex_field (Other ''Tissue'')) ''tissue'' (Some ''remote'') True None None
        (ex_state (Other ''Tissue'')))))"
proof -
  have p: "\<not> with_public ex_vocab ULabel" by (simp add: ex_vocab_def)
  have f: "model (ex_field (Other ''Tissue'')) = Feature \<longrightarrow>
             (None :: val list option) = None \<and> fname (ex_field (Other ''Tissue'')) \<noteq> ''type''"
    by (simp add: ex_field_def)
  have e: "FromValues [] \<notin> set (trace (ex_state (Other ''Tissue'')))"
    by (simp add: ex_state_def)
  note t = reconciliation_idempotent [OF p, of ex_values "ex_field (Other ''Tissue'')"
      "''tissue''" "Some ''remote''" True None None "ex_state (Other ''Tissue'')"
      "spec_env ex_vocab" None "ex_state (Other ''Tissue'')"]
  have tr: "trace (snd (register_labels (spec_env ex_vocab) ex_values
        (ex_field (Other ''Tissue'')) ''tissue'' (Some ''remote'') True None None
        (snd (register_labels (spec_env ex_vocab) ex_values (ex_field (Other ''Tissue''))
           ''tissue'' (Some ''remote'') True None None (ex_state (Other ''Tissue''))))))
     = trace (snd (register_labels (spec_env ex_vocab) ex_values (ex_field (Other ''Tissue''))
           ''tissue'' (Some ''remote'') True None None (ex_state (Other ''Tissue''))))
       @ [NeedsOrganism (Other ''Tissue'') None, InspectCurrent ex_values,
          RegistryUsing (Other ''Tissue'') ''remote'',
          InspectUsing ''remote'' [''unknowntissue''], FilterUsing ''remote'' [],
          FromValues [''unknowntissue''], SavePublic []]"
    by code_simp
  have wr: "written (trace (snd (register_labels (spec_env ex_vocab) ex_values
        (ex_field (Other ''Tissue'')) ''tissue'' (Some ''remote'') True None None
        (ex_state (Other ''Tissue''))))) = [named (Other ''Tissue'') ''heart'']"
    by code_simp
  from p f e t tr wr show ?thesis by blast
qed

end
